theory Spec2Isabelle
  imports Main "HOL-Library.Char_ord" "HOL-Library.List_Lexorder" "HOL-Library.Multiset"
begin

section \<open>The packaging subsystem of asanacli (package pack)\<close>

text \<open>
  The embedding follows \<^verbatim>\<open>cmd/commands/pack\<close>: the tree walker \<^verbatim>\<open>walkFileTree\<close>, its two
  archive back ends \<^verbatim>\<open>tarWalk\<close> and \<^verbatim>\<open>zipWalk\<close>, \<^verbatim>\<open>packDirectory\<close> and the part of
  \<^verbatim>\<open>packApp\<close> that prepares the configuration.  The operating system is explicit: the
  directory tree that the walker observes and the outcome of every I/O call are fields of
  a record, and the archive is the list of entries that the back end has written.
\<close>

subsection \<open>Errors and results\<close>

text \<open>
  Errors of the operating system and of the archive libraries.  \<^verbatim>\<open>os.IsNotExist\<close> holds of
  \<open>ErrNotExist\<close> only.
\<close>

datatype oserror = ErrNotExist | ErrPermission | ErrOther

text \<open>
  A Go \<^verbatim>\<open>error\<close> value as the walker sees it: the sentinel \<^verbatim>\<open>filepath.SkipDir\<close>, or an
  error that an I/O call returned.  No call of \<^verbatim>\<open>os\<close>, \<^verbatim>\<open>archive/tar\<close> or
  \<^verbatim>\<open>archive/zip\<close> returns the sentinel.
\<close>

datatype error = SkipDir | OSError oserror

text \<open>
  What a call of the walker comes to: it returns \<^verbatim>\<open>nil\<close>, it returns an error, or it
  panics (nil dereference, slice bounds out of range).
\<close>

datatype outcome = Nil | Failed error | Panicked

fun IsNotExist :: "oserror \<Rightarrow> bool" where
  "IsNotExist ErrNotExist = True"
| "IsNotExist _ = False"

subsection \<open>The file system as the walker observes it\<close>

text \<open>
  \<^verbatim>\<open>os.FileInfo\<close>, reduced to the three methods the walker calls: \<^verbatim>\<open>Name()\<close>,
  \<^verbatim>\<open>IsDir()\<close> and \<^verbatim>\<open>Mode()&os.ModeSymlink > 0\<close>.
\<close>

record fileInfo =
  fi_Name :: string
  fi_IsDir :: bool
  fi_Symlink :: bool

text \<open>
  A node of the directory tree.  \<open>Dir\<close> holds the children in the order in which
  \<^verbatim>\<open>Readdir\<close> returns them; \<open>BadDir\<close> is a directory that cannot be opened or listed;
  \<open>Link\<close> is a symbolic link with the node it points to, and \<open>BadLink\<close> a symbolic link
  through which \<^verbatim>\<open>os.Stat\<close> fails (with \<open>ErrNotExist\<close> when the target is gone).
  \<open>File\<close> is every other kind of node.  The tree is what a walk can reach through
  paths: where links form a cycle, the operating system ends the descent with an error
  once the path is too long, and the node at that depth is a \<open>BadLink\<close> or a \<open>BadDir\<close>.
\<close>

datatype node =
    File
  | Dir "(string \<times> node) list"
  | BadDir oserror
  | Link node
  | BadLink oserror

fun is_dir :: "node \<Rightarrow> bool" where
  "is_dir (Dir _) = True"
| "is_dir (BadDir _) = True"
| "is_dir _ = False"

fun is_link :: "node \<Rightarrow> bool" where
  "is_link (Link _) = True"
| "is_link (BadLink _) = True"
| "is_link _ = False"

text \<open>\<^verbatim>\<open>os.Stat\<close> follows symbolic links to the end of the chain.\<close>

fun resolve :: "node \<Rightarrow> oserror + node" where
  "resolve (Link n) = resolve n"
| "resolve (BadLink e) = Inl e"
| "resolve n = Inr n"

text \<open>The \<^verbatim>\<open>os.FileInfo\<close> that \<^verbatim>\<open>Readdir\<close> gives for a child (it does not follow links).\<close>

definition lstat_info :: "string \<Rightarrow> node \<Rightarrow> fileInfo" where
  "lstat_info name nd = \<lparr>fi_Name = name, fi_IsDir = is_dir nd, fi_Symlink = is_link nd\<rparr>"

text \<open>The \<^verbatim>\<open>os.FileInfo\<close> that \<^verbatim>\<open>os.Stat\<close> gives for a resolved node.\<close>

definition stat_info :: "string \<Rightarrow> node \<Rightarrow> fileInfo" where
  "stat_info name nd = \<lparr>fi_Name = name, fi_IsDir = is_dir nd, fi_Symlink = False\<rparr>"

text \<open>
  The operating system and the libraries.  \<open>Join\<close> is \<^verbatim>\<open>filepath.Join\<close> on a directory and
  a child name, \<open>Base\<close> is \<^verbatim>\<open>filepath.Base\<close>, \<open>ToSlash\<close> is \<^verbatim>\<open>filepath.ToSlash\<close>; \<open>fs\<close> gives
  the node at a path that the program passes to \<^verbatim>\<open>os.Stat\<close> itself (\<open>None\<close> when nothing
  is there).  Each \<open>io_\<close> field says whether the I/O call of that name fails on the given
  path (for \<open>io_WriteHeader\<close> and \<open>io_CreateHeader\<close>: on the given entry name), and with
  which error.  The fields from \<open>Getwd\<close> on are read by \<^verbatim>\<open>packApp\<close> only: the working directory,
  \<^verbatim>\<open>filepath.IsAbs\<close> and \<^verbatim>\<open>filepath.Abs\<close>, the name of the temporary build directory
  (made from \<^verbatim>\<open>os.TempDir\<close> and the clock), the result of running \<^verbatim>\<open>go build\<close>,
  \<^verbatim>\<open>os.MkdirAll\<close>, and \<^verbatim>\<open>regexp.Compile\<close> (\<open>None\<close> for a pattern that does not compile,
  otherwise the \<^verbatim>\<open>MatchString\<close> of the compiled expression).
\<close>

record os =
  Join :: "string \<Rightarrow> string \<Rightarrow> string"
  Base :: "string \<Rightarrow> string"
  ToSlash :: "string \<Rightarrow> string"
  fs :: "string \<Rightarrow> node option"
  io_OpenFile :: "string \<Rightarrow> oserror option"
  io_FileInfoHeader :: "string \<Rightarrow> oserror option"
  io_WriteHeader :: "string \<Rightarrow> oserror option"
  io_CreateHeader :: "string \<Rightarrow> oserror option"
  io_Open :: "string \<Rightarrow> oserror option"
  io_Copy :: "string \<Rightarrow> oserror option"
  io_Readlink :: "string \<Rightarrow> oserror option"
  io_Write :: "string \<Rightarrow> oserror option"
  Getwd :: string
  IsAbs :: "string \<Rightarrow> bool"
  Abs :: "string \<Rightarrow> oserror + string"
  tmpdir :: string
  exec_Run :: "oserror option"
  io_MkdirAll :: "string \<Rightarrow> oserror option"
  regexp_Compile :: "string \<Rightarrow> (string \<Rightarrow> bool) option"

definition os_Stat :: "os \<Rightarrow> string \<Rightarrow> oserror + node" where
  "os_Stat OS p = (case fs OS p of None \<Rightarrow> Inl ErrNotExist | Some nd \<Rightarrow> resolve nd)"

subsection \<open>Package-level flags\<close>

text \<open>
  The flag variables of the package (\<^verbatim>\<open>buildArgs\<close> and \<^verbatim>\<open>buildEnvs\<close> only shape the
  command line of \<^verbatim>\<open>go build\<close>, whose result is \<open>exec_Run\<close>).
\<close>

record globals =
  appPath :: string
  excludeP :: string
  excludeS :: string
  outputP :: string
  excludeR :: "string list"
  fsym :: bool
  ssym :: bool
  build :: bool
  verbose :: bool
  format :: string

subsection \<open>The walker and the archive\<close>

text \<open>
  An archive entry: the header name, the path the content was read from, the
  \<^verbatim>\<open>os.FileInfo\<close> the header was derived from, and what follows the header.
  \<open>Incomplete\<close> is a header whose content was not written in full because a later
  step of \<^verbatim>\<open>compress\<close> failed.
\<close>

datatype body = Content | LinkTarget | Incomplete

record entry =
  e_name :: string
  e_src :: string
  e_fi :: fileInfo
  e_body :: body

datatype backend = TarWalk | ZipWalk

text \<open>
  \<^verbatim>\<open>walkFileTree\<close> together with the writer of the embedding struct (\<^verbatim>\<open>tw\<close> or \<^verbatim>\<open>zw\<close>):
  \<open>written\<close> is the sequence of entries in the output stream so far, \<open>output_w\<close> the
  names reported on the verbose writer.  A regular expression is its \<^verbatim>\<open>MatchString\<close>.
\<close>

record walkFileTree =
  wak :: backend
  prefix :: string
  excludePrefix :: "string list"
  excludeRegexp :: "(string \<Rightarrow> bool) list"
  excludeSuffix :: "string list"
  allFiles :: "string \<Rightarrow> bool"
  output_w :: "string list"
  written :: "entry list"

text \<open>\<^verbatim>\<open>strings.HasPrefix\<close> and \<^verbatim>\<open>strings.HasSuffix\<close>.\<close>

definition HasPrefix :: "string \<Rightarrow> string \<Rightarrow> bool" where
  "HasPrefix s p = (length s \<ge> length p \<and> take (length p) s = p)"

definition HasSuffix :: "string \<Rightarrow> string \<Rightarrow> bool" where
  "HasSuffix s x = (length s \<ge> length x \<and> drop (length s - length x) s = x)"

definition isExclude :: "walkFileTree \<Rightarrow> string \<Rightarrow> bool" where
  "isExclude wft fPath =
     (if fPath = [] then True
      else if list_ex (\<lambda>p. HasPrefix fPath p) (excludePrefix wft) then True
      else if list_ex (\<lambda>s. HasSuffix fPath s) (excludeSuffix wft) then True
      else False)"

definition isExcludeName :: "walkFileTree \<Rightarrow> string \<Rightarrow> bool" where
  "isExcludeName wft name = list_ex (\<lambda>r. r name) (excludeRegexp wft)"

text \<open>
  \<^verbatim>\<open>virPath\<close>.  The slice \<^verbatim>\<open>fPath[len(wft.prefix):]\<close> panics when the prefix is longer than
  the path: that is the result \<open>None\<close>.
\<close>

definition virPath :: "os \<Rightarrow> walkFileTree \<Rightarrow> string \<Rightarrow> string option" where
  "virPath OS wft fPath =
     (if length (prefix wft) > length fPath then None
      else let name = drop (length (prefix wft)) fPath in
        if name = [] then Some []
        else Some (ToSlash OS (drop 1 name)))"

text \<open>
  \<^verbatim>\<open>readDir\<close>: open the directory, list it, sort the list by name.  \<^verbatim>\<open>os.Open\<close> follows a
  symbolic link; listing something that is not a directory is an error.  \<^verbatim>\<open>byName\<close>
  compares the names as Go compares strings, byte by byte, which is the order of
  \<open>string\<close> here.  The names of the children of one directory are pairwise distinct, so
  the sorted list does not depend on the sorting algorithm; \<open>sort_key\<close> is insertion sort.
\<close>

fun readDir :: "node \<Rightarrow> oserror + (string \<times> node) list" where
  "readDir (Dir cs) = Inr (sort_key fst cs)"
| "readDir (BadDir e) = Inl e"
| "readDir (Link n) = readDir n"
| "readDir (BadLink e) = Inl e"
| "readDir File = Inl ErrOther"

subsection \<open>The two back ends\<close>

definition put :: "string \<Rightarrow> string \<Rightarrow> fileInfo \<Rightarrow> body \<Rightarrow> walkFileTree \<Rightarrow> walkFileTree" where
  "put name fPath fi b wft =
     wft\<lparr>written := written wft @ [\<lparr>e_name = name, e_src = fPath, e_fi = fi, e_body = b\<rparr>]\<rparr>"

text \<open>
  \<^verbatim>\<open>tarWalk.compress\<close>.  The result is the walker, \<^verbatim>\<open>wasAdded\<close> and the error
  (\<open>None\<close> for \<^verbatim>\<open>nil\<close>).  Once \<^verbatim>\<open>WriteHeader\<close> has succeeded the header is in the stream,
  whatever happens to the content.
\<close>

definition compress_tar ::
  "os \<Rightarrow> string \<Rightarrow> string \<Rightarrow> fileInfo \<Rightarrow> walkFileTree \<Rightarrow> walkFileTree \<times> bool \<times> error option" where
  "compress_tar OS name fPath fi wft =
     (let isSym = fi_Symlink fi in
      case io_FileInfoHeader OS fPath of
        Some e \<Rightarrow> (wft, False, Some (OSError e))
      | None \<Rightarrow>
         (case io_WriteHeader OS name of
            Some e \<Rightarrow> (wft, False, Some (OSError e))
          | None \<Rightarrow>
             if \<not> isSym then
               (case io_Open OS fPath of
                  Some e \<Rightarrow> (put name fPath fi Incomplete wft, False, Some (OSError e))
                | None \<Rightarrow>
                   (case io_Copy OS fPath of
                      Some e \<Rightarrow> (put name fPath fi Incomplete wft, False, Some (OSError e))
                    | None \<Rightarrow> (put name fPath fi Content wft, True, None)))
             else (put name fPath fi LinkTarget wft, True, None)))"

text \<open>\<^verbatim>\<open>zipWalk.compress\<close>.\<close>

definition compress_zip ::
  "os \<Rightarrow> string \<Rightarrow> string \<Rightarrow> fileInfo \<Rightarrow> walkFileTree \<Rightarrow> walkFileTree \<times> bool \<times> error option" where
  "compress_zip OS name fPath fi wft =
     (let isSym = fi_Symlink fi in
      case io_FileInfoHeader OS fPath of
        Some e \<Rightarrow> (wft, False, Some (OSError e))
      | None \<Rightarrow>
         (case io_CreateHeader OS name of
            Some e \<Rightarrow> (wft, False, Some (OSError e))
          | None \<Rightarrow>
             if \<not> isSym then
               (case io_Open OS fPath of
                  Some e \<Rightarrow> (put name fPath fi Incomplete wft, False, Some (OSError e))
                | None \<Rightarrow>
                   (case io_Copy OS fPath of
                      Some e \<Rightarrow> (put name fPath fi Incomplete wft, False, Some (OSError e))
                    | None \<Rightarrow> (put name fPath fi Content wft, True, None)))
             else
               (case io_Readlink OS fPath of
                  Some e \<Rightarrow> (put name fPath fi Incomplete wft, False, Some (OSError e))
                | None \<Rightarrow>
                   (case io_Write OS fPath of
                      Some e \<Rightarrow> (put name fPath fi Incomplete wft, False, Some (OSError e))
                    | None \<Rightarrow> (put name fPath fi LinkTarget wft, True, None)))))"

text \<open>The call \<^verbatim>\<open>wft.wak.compress\<close> through the \<^verbatim>\<open>walker\<close> interface.\<close>

definition compress ::
  "os \<Rightarrow> string \<Rightarrow> string \<Rightarrow> fileInfo \<Rightarrow> walkFileTree \<Rightarrow> walkFileTree \<times> bool \<times> error option" where
  "compress OS name fPath fi wft =
     (case wak wft of
        TarWalk \<Rightarrow> compress_tar OS name fPath fi wft
      | ZipWalk \<Rightarrow> compress_zip OS name fPath fi wft)"

subsection \<open>The walk\<close>

fun outcome_of :: "error option \<Rightarrow> outcome" where
  "outcome_of None = Nil"
| "outcome_of (Some e) = Failed e"

text \<open>
  \<^verbatim>\<open>walkLeaf\<close>.  The \<^verbatim>\<open>os.FileInfo\<close> may be \<^verbatim>\<open>nil\<close> (\<open>None\<close>); calling a method on it
  panics.  The results of \<^verbatim>\<open>compress\<close> are declared in the \<^verbatim>\<open>if\<close> statement
  (\<^verbatim>\<open>if added, err := ...; added\<close>) and are in scope in its body only (\<open>err'\<close> here):
  the \<^verbatim>\<open>return err\<close> after the \<^verbatim>\<open>if\<close> returns the parameter \<open>err\<close>, which is \<^verbatim>\<open>nil\<close>
  there, so an error of \<^verbatim>\<open>compress\<close> is not returned.
\<close>

definition walkLeaf ::
  "globals \<Rightarrow> os \<Rightarrow> string \<Rightarrow> fileInfo option \<Rightarrow> error option \<Rightarrow> walkFileTree
     \<Rightarrow> walkFileTree \<times> outcome" where
  "walkLeaf G OS fPath fi err wft =
     (case err of
        Some e \<Rightarrow> (wft, Failed e)
      | None \<Rightarrow>
         if fPath = outputP G then (wft, Nil)
         else
           (case fi of
              None \<Rightarrow> (wft, Panicked)
            | Some i \<Rightarrow>
               if fi_IsDir i then (wft, Nil)
               else if ssym G \<and> fi_Symlink i then (wft, Nil)
               else
                 (case virPath OS wft fPath of
                    None \<Rightarrow> (wft, Panicked)
                  | Some name \<Rightarrow>
                     if allFiles wft name then (wft, Nil)
                     else
                       (case compress OS name fPath i wft of
                          (wft', added, err') \<Rightarrow>
                            if added then
                              (wft'\<lparr>output_w :=
                                      (if verbose G then output_w wft' @ [name]
                                       else output_w wft'),
                                    allFiles := (allFiles wft')(name := True)\<rparr>,
                               outcome_of err')
                            else (wft', outcome_of err)))))"

text \<open>The size of a tree, for the termination of the walk.\<close>

fun nsize :: "node \<Rightarrow> nat" where
  "nsize File = 1"
| "nsize (Dir cs) = Suc (sum_list (map (\<lambda>c. nsize (snd c)) cs))"
| "nsize (BadDir e) = 1"
| "nsize (Link n) = Suc (nsize n)"
| "nsize (BadLink e) = 1"

text \<open>
  \<^verbatim>\<open>iterDirectory\<close>, with the node that lives at \<^verbatim>\<open>fPath\<close>, and its loop over the sorted
  children (\<open>iterList\<close>).  After \<^verbatim>\<open>fi = nfi\<close> the \<^verbatim>\<open>os.FileInfo\<close> is \<^verbatim>\<open>nil\<close> when
  \<^verbatim>\<open>os.Stat\<close> failed.
\<close>

function iterDirectory ::
    "globals \<Rightarrow> os \<Rightarrow> string \<Rightarrow> fileInfo \<Rightarrow> node \<Rightarrow> walkFileTree \<Rightarrow> walkFileTree \<times> outcome"
  and iterList ::
    "globals \<Rightarrow> os \<Rightarrow> string \<Rightarrow> (string \<times> node) list \<Rightarrow> walkFileTree \<Rightarrow> walkFileTree \<times> outcome"
where
  "iterDirectory G OS fPath fi0 nd wft =
     (let doFSym = fsym G \<and> fi_Symlink fi0;
          stat = resolve nd
      in
        if doFSym \<and> (case stat of Inl e \<Rightarrow> IsNotExist e | Inr t \<Rightarrow> False) then (wft, Nil)
        else
          let fi = (if doFSym
                    then (case stat of Inl e \<Rightarrow> None
                          | Inr t \<Rightarrow> Some (stat_info (Base OS fPath) t))
                    else Some fi0)
          in
            case virPath OS wft fPath of
              None \<Rightarrow> (wft, Panicked)
            | Some relPath \<Rightarrow>
               if length relPath > 0 \<and> fi = None then (wft, Panicked)
               else if length relPath > 0 \<and> isExcludeName wft (fi_Name (the fi)) then (wft, Nil)
               else if length relPath > 0 \<and> isExclude wft relPath then (wft, Nil)
               else
                 (case walkLeaf G OS fPath fi None wft of
                    (wft', Panicked) \<Rightarrow> (wft', Panicked)
                  | (wft', Failed err) \<Rightarrow>
                     (case fi of
                        None \<Rightarrow> (wft', Panicked)
                      | Some i \<Rightarrow>
                         if fi_IsDir i \<and> err = SkipDir then (wft', Nil)
                         else (wft', Failed err))
                  | (wft', Nil) \<Rightarrow>
                     (case fi of
                        None \<Rightarrow> (wft', Panicked)
                      | Some i \<Rightarrow>
                         if \<not> fi_IsDir i then (wft', Nil)
                         else
                           (case readDir nd of
                              Inl e \<Rightarrow> walkLeaf G OS fPath fi (Some (OSError e)) wft'
                            | Inr list \<Rightarrow> iterList G OS fPath list wft'))))"
| "iterList G OS fPath [] wft = (wft, Nil)"
| "iterList G OS fPath (c # rest) wft =
     (let fileInfo = lstat_info (fst c) (snd c) in
      case iterDirectory G OS (Join OS fPath (fi_Name fileInfo)) fileInfo (snd c) wft of
        (wft', Panicked) \<Rightarrow> (wft', Panicked)
      | (wft', Failed err) \<Rightarrow>
         if \<not> fi_IsDir fileInfo \<or> err \<noteq> SkipDir then (wft', Failed err)
         else iterList G OS fPath rest wft'
      | (wft', Nil) \<Rightarrow> iterList G OS fPath rest wft')"
  by pat_completeness auto
termination
proof -
  have pos: "0 < nsize nd" for nd
    by (cases nd) simp_all
  have ins: "sum_list (map f (insort_key k x xs)) = (f x :: nat) + sum_list (map f xs)"
    for f :: "string \<times> node \<Rightarrow> nat" and k :: "string \<times> node \<Rightarrow> string" and x xs
    by (induction xs) auto
  have srt: "sum_list (map f (sort_key k xs)) = (sum_list (map f xs) :: nat)"
    for f :: "string \<times> node \<Rightarrow> nat" and k :: "string \<times> node \<Rightarrow> string" and xs
    by (induction xs) (auto simp: ins)
  have rd: "readDir nd = Inr list \<Longrightarrow> sum_list (map (\<lambda>c. nsize (snd c)) list) < nsize nd"
    for nd list
    by (induction nd arbitrary: list rule: readDir.induct) (auto simp: srt less_Suc_eq)
  show ?thesis
    by (relation "measure (\<lambda>x. case x of
          Inl (G, OS, fPath, fi0, nd, wft) \<Rightarrow> 2 * nsize nd
        | Inr (G, OS, fPath, cs, wft) \<Rightarrow> 2 * sum_list (map (\<lambda>c. nsize (snd c)) cs) + 1)")
       (auto dest: rd simp: pos)
qed

declare iterDirectory.simps [simp del]

text \<open>\<^verbatim>\<open>walkRoot\<close>.\<close>

definition walkRoot ::
  "globals \<Rightarrow> os \<Rightarrow> string \<Rightarrow> walkFileTree \<Rightarrow> walkFileTree \<times> outcome" where
  "walkRoot G OS root wft0 =
     (let wft = wft0\<lparr>prefix := root\<rparr> in
      case os_Stat OS root of
        Inl e \<Rightarrow> (wft, Failed (OSError e))
      | Inr nd \<Rightarrow> iterDirectory G OS root (stat_info (Base OS root) nd) nd wft)"

text \<open>The loop of \<^verbatim>\<open>packDirectory\<close> over \<^verbatim>\<open>includePath\<close>: the first error ends it.\<close>

fun walkRoots ::
  "globals \<Rightarrow> os \<Rightarrow> string list \<Rightarrow> walkFileTree \<Rightarrow> walkFileTree \<times> outcome" where
  "walkRoots G OS [] wft = (wft, Nil)"
| "walkRoots G OS (p # ps) wft =
     (case walkRoot G OS p wft of
        (wft', Nil) \<Rightarrow> walkRoots G OS ps wft'
      | (wft', r) \<Rightarrow> (wft', r))"

text \<open>
  \<^verbatim>\<open>packDirectory\<close>.  The first component of the result is \<open>None\<close> when the call did not
  create the output file, and otherwise the walker, whose field \<open>written\<close> is the content
  of the output file.
\<close>

definition new_walk ::
  "globals \<Rightarrow> string list \<Rightarrow> string list \<Rightarrow> (string \<Rightarrow> bool) list \<Rightarrow> walkFileTree" where
  "new_walk G xp xs xr =
     \<lparr>wak = (if format G = ''zip'' then ZipWalk else TarWalk),
      prefix = [],
      excludePrefix = xp,
      excludeRegexp = xr,
      excludeSuffix = xs,
      allFiles = (\<lambda>_. False),
      output_w = [],
      written = []\<rparr>"

definition packDirectory ::
  "globals \<Rightarrow> os \<Rightarrow> string list \<Rightarrow> string list \<Rightarrow> (string \<Rightarrow> bool) list \<Rightarrow> string list
     \<Rightarrow> walkFileTree option \<times> outcome" where
  "packDirectory G OS excludePrefix' excludeSuffix' excludeRegexp' includePath =
     (case io_OpenFile OS (outputP G) of
        Some e \<Rightarrow> (None, Failed (OSError e))
      | None \<Rightarrow>
         (case walkRoots G OS includePath (new_walk G excludePrefix' excludeSuffix' excludeRegexp') of
            (wft, r) \<Rightarrow> (Some wft, r)))"

text \<open>The archive that a packing run leaves at the output path.\<close>

definition archive :: "walkFileTree option \<times> outcome \<Rightarrow> entry list" where
  "archive res = (case fst res of None \<Rightarrow> [] | Some wft \<Rightarrow> written wft)"

subsection \<open>The configuration that \<^verbatim>\<open>packApp\<close> prepares\<close>

text \<open>\<^verbatim>\<open>strings.Split\<close> with a separator of one byte: \<open>n\<close> separators give \<open>n + 1\<close> pieces.\<close>

fun Split :: "string \<Rightarrow> char \<Rightarrow> string list" where
  "Split [] sep = [[]]"
| "Split (c # cs) sep =
     (if c = sep then [] # Split cs sep
      else (case Split cs sep of
              [] \<Rightarrow> [[c]]
            | p # ps \<Rightarrow> (c # p) # ps))"

text \<open>The loops that drop the empty pieces of \<^verbatim>\<open>excludeP\<close> and \<^verbatim>\<open>excludeS\<close>.\<close>

definition nonempty_pieces :: "string \<Rightarrow> string list" where
  "nonempty_pieces s = filter (\<lambda>p. length p > 0) (Split s (CHR '':''))"

text \<open>
  The loop over \<^verbatim>\<open>excludeR\<close>: an empty pattern is skipped, a pattern that does not compile
  ends the run (\<open>None\<close>).
\<close>

fun compile_all :: "os \<Rightarrow> string list \<Rightarrow> (string \<Rightarrow> bool) list option" where
  "compile_all OS [] = Some []"
| "compile_all OS (r # rs) =
     (if length r > 0 then
        (case regexp_Compile OS r of
           None \<Rightarrow> None
         | Some re \<Rightarrow> (case compile_all OS rs of None \<Rightarrow> None | Some exr \<Rightarrow> Some (re # exr)))
      else compile_all OS rs)"

text \<open>
  Modelled from the spec: \<^verbatim>\<open>asanaLogger.Log.Fatal\<close> and \<^verbatim>\<open>Fatalf\<close> (package \<^verbatim>\<open>logger\<close> is
  not among the sources).  A fatal error is reported and terminates the packing operation
  with a failure; nothing after the call runs.  That is the status \<open>Fatal\<close>.  The other
  two ways for a run of \<^verbatim>\<open>packApp\<close> to end: it returns its exit code, or it panics.
\<close>

datatype status = Returned int | Fatal | Crashed

text \<open>
  \<^verbatim>\<open>packApp\<close>, from the parsed flags on.  The first component of the result is the output
  file as \<^verbatim>\<open>packDirectory\<close> left it, \<open>None\<close> when the run did not create it.  The
  temporary directory is made before and removed after; what it holds when
  \<^verbatim>\<open>packDirectory\<close> walks it is part of \<open>fs\<close>.
\<close>

definition packApp :: "globals \<Rightarrow> os \<Rightarrow> walkFileTree option \<times> status" where
  "packApp G OS =
     (let curPath = Getwd OS;
          appPath' = (if \<not> IsAbs OS (appPath G) then Join OS curPath (appPath G) else appPath G)
      in
        case Abs OS appPath' of
          Inl e \<Rightarrow> (None, Fatal)
        | Inr thePath \<Rightarrow>
           (case os_Stat OS thePath of
              Inl e \<Rightarrow> if IsNotExist e then (None, Fatal) else (None, Crashed)
            | Inr stat \<Rightarrow>
               if \<not> is_dir stat then (None, Fatal)
               else
                 let appName = Base OS thePath in
                 if build G \<and> exec_Run OS \<noteq> None then (None, Fatal)
                 else
                   let format' = (if format G = ''zip'' then ''zip'' else ''tar.gz'');
                       outputN = appName @ ''.'' @ format';
                       outputP1 = (if outputP G = [] \<or> \<not> IsAbs OS (outputP G)
                                   then Join OS curPath (outputP G) else outputP G)
                   in
                     if (case os_Stat OS outputP1 of Inl e \<Rightarrow> io_MkdirAll OS outputP1 \<noteq> None
                         | Inr d \<Rightarrow> False)
                     then (None, Fatal)
                     else
                       let outputP2 = Join OS outputP1 outputN;
                           exp = nonempty_pieces (excludeP G);
                           exs = nonempty_pieces (excludeS G)
                       in
                         (case compile_all OS (excludeR G) of
                            None \<Rightarrow> (None, Fatal)
                          | Some exr \<Rightarrow>
                             (case packDirectory (G\<lparr>outputP := outputP2, format := format'\<rparr>) OS
                                     exp exs exr [tmpdir OS, thePath] of
                                (file, Nil) \<Rightarrow> (file, Returned 0)
                              | (file, Failed err) \<Rightarrow> (file, Fatal)
                              | (file, Panicked) \<Rightarrow> (file, Crashed)))))"

subsection \<open>Directory trees up to the order of the listing\<close>

text \<open>
  The order in which \<^verbatim>\<open>Readdir\<close> returns the children of a directory is not fixed by the
  directory.  \<open>canon\<close> puts every listing of a tree into the order of the names: two trees
  with the same \<open>canon\<close> are the same directory tree, listed in different orders.
\<close>

fun canon :: "node \<Rightarrow> node" where
  "canon File = File"
| "canon (Dir cs) = Dir (sort_key fst (map (\<lambda>c. (fst c, canon (snd c))) cs))"
| "canon (BadDir e) = BadDir e"
| "canon (Link n) = Link (canon n)"
| "canon (BadLink e) = BadLink e"

subsection \<open>A concrete host for examples\<close>

text \<open>
  A Unix host on which no I/O call fails and no regular expression compiles.  \<open>unix_Join\<close> is \<^verbatim>\<open>filepath.Join\<close> on a clean
  directory path other than \<^verbatim>\<open>/\<close> and a file name; \<open>unix_Base\<close> is the last component
  of such a path; \<^verbatim>\<open>filepath.ToSlash\<close> is the identity where the separator is the slash.
\<close>

definition unix_Join :: "string \<Rightarrow> string \<Rightarrow> string" where
  "unix_Join d n = d @ ''/'' @ n"

definition unix_Base :: "string \<Rightarrow> string" where
  "unix_Base p = rev (takeWhile (\<lambda>c. c \<noteq> CHR ''/'') (rev p))"

definition unix :: "(string \<Rightarrow> node option) \<Rightarrow> os" where
  "unix tree =
     \<lparr>Join = unix_Join, Base = unix_Base, ToSlash = (\<lambda>p. p), fs = tree,
      io_OpenFile = (\<lambda>_. None), io_FileInfoHeader = (\<lambda>_. None),
      io_WriteHeader = (\<lambda>_. None), io_CreateHeader = (\<lambda>_. None),
      io_Open = (\<lambda>_. None), io_Copy = (\<lambda>_. None),
      io_Readlink = (\<lambda>_. None), io_Write = (\<lambda>_. None),
      Getwd = ''/home'', IsAbs = (\<lambda>p. take 1 p = ''/''), Abs = Inr,
      tmpdir = ''/tmp/asanaPack-1'', exec_Run = None,
      io_MkdirAll = (\<lambda>_. None), regexp_Compile = (\<lambda>_. None)\<rparr>"

definition flags0 :: globals where
  "flags0 =
     \<lparr>appPath = ''/app'', excludeP = ''.'', excludeS = ''.go:.DS_Store:.tmp'',
      outputP = ''/out/app.tar.gz'', excludeR = [], fsym = False, ssym = False,
      build = False, verbose = False, format = ''tar.gz''\<rparr>"

definition demo_tree :: "string \<Rightarrow> node option" where
  "demo_tree =
     [''/tmp/build'' \<mapsto> Dir [(''x'', Dir [(''y.txt'', File)]), (''app'', File)],
      ''/app'' \<mapsto>
         Dir [(''x'', Dir [(''y.txt'', File), (''z'', File)]), (''main.go'', File),
              (''l'', Link File), (''gone'', BadLink ErrNotExist),
              (''.git'', Dir [(''config'', File)]), (''app.tar.gz'', File),
              (''README.md'', File)],
      ''/locked'' \<mapsto> BadDir ErrPermission,
      ''/tmp/asanaPack-1'' \<mapsto> Dir [(''app'', File)]]"

text \<open>The same directories, listed by \<^verbatim>\<open>Readdir\<close> in another order.\<close>

definition demo_tree_shuffled :: "string \<Rightarrow> node option" where
  "demo_tree_shuffled =
     [''/tmp/build'' \<mapsto> Dir [(''app'', File), (''x'', Dir [(''y.txt'', File)])],
      ''/app'' \<mapsto>
         Dir [(''README.md'', File), (''gone'', BadLink ErrNotExist), (''main.go'', File),
              (''x'', Dir [(''z'', File), (''y.txt'', File)]), (''app.tar.gz'', File),
              (''.git'', Dir [(''config'', File)]), (''l'', Link File)],
      ''/locked'' \<mapsto> BadDir ErrPermission,
      ''/tmp/asanaPack-1'' \<mapsto> Dir [(''app'', File)]]"

definition regular :: "string \<Rightarrow> fileInfo" where
  "regular name = \<lparr>fi_Name = name, fi_IsDir = False, fi_Symlink = False\<rparr>"

text \<open>A walker of the root \<^verbatim>\<open>/app\<close> that has written \<^verbatim>\<open>README.md\<close> from an earlier root.\<close>

definition written_once :: walkFileTree where
  "written_once =
     (new_walk flags0 [] [] [])
       \<lparr>prefix := ''/app'',
        allFiles := (\<lambda>n. n = ''README.md''),
        written := [\<lparr>e_name = ''README.md'', e_src = ''/tmp/build/README.md'',
                     e_fi = regular ''README.md'', e_body = Content\<rparr>]\<rparr>"

text \<open>
  The same host, except that the file \<^verbatim>\<open>x/y.txt\<close> of the build directory cannot be opened
  for reading.
\<close>

definition unreadable_host :: os where
  "unreadable_host =
     (unix demo_tree)
       \<lparr>io_Open := (\<lambda>p. if p = ''/tmp/build/x/y.txt'' then Some ErrPermission else None)\<rparr>"

text \<open>A root that is a symbolic link to a directory, which holds a file and a link.\<close>

definition link_root_tree :: "string \<Rightarrow> node option" where
  "link_root_tree = [''/current'' \<mapsto> Link (Dir [(''f'', File), (''l'', Link File)])]"

subsection \<open>Invariants of the walk\<close>

text \<open>The fields of the walker that the walk never assigns, the root prefix apart.\<close>

definition same_setup :: "walkFileTree \<Rightarrow> walkFileTree \<Rightarrow> bool" where
  "same_setup w w' =
     (wak w' = wak w \<and> excludePrefix w' = excludePrefix w
      \<and> excludeRegexp w' = excludeRegexp w \<and> excludeSuffix w' = excludeSuffix w)"

text \<open>What holds of every entry at the moment the walker hands it to the back end.\<close>

definition entry_ok :: "globals \<Rightarrow> walkFileTree \<Rightarrow> entry \<Rightarrow> bool" where
  "entry_ok G wft e =
     (e_src e \<noteq> outputP G \<and> \<not> fi_IsDir (e_fi e) \<and> \<not> (ssym G \<and> fi_Symlink (e_fi e))
      \<and> (e_name e \<noteq> [] \<longrightarrow>
            \<not> isExcludeName wft (fi_Name (e_fi e)) \<and> \<not> isExclude wft (e_name e)))"

text \<open>The output stream only grows, and by such entries.\<close>

definition grows :: "globals \<Rightarrow> walkFileTree \<Rightarrow> walkFileTree \<Rightarrow> bool" where
  "grows G wft wft' =
     (same_setup wft wft'
      \<and> (\<exists>new. written wft' = written wft @ new \<and> list_all (entry_ok G wft) new))"

section \<open>Properties\<close>

subsection \<open>Induction over the walk\<close>

lemma nsize_pos: "0 < nsize nd"
  by (cases nd) simp_all

lemma sum_list_insort_key:
  "sum_list (map f (insort_key k x xs)) = (f x :: nat) + sum_list (map f xs)"
  by (induction xs) auto

lemma sum_list_sort_key:
  "sum_list (map f (sort_key k xs)) = (sum_list (map f xs) :: nat)"
  by (induction xs) (auto simp: sum_list_insort_key)

lemma readDir_size:
  "readDir nd = Inr list \<Longrightarrow> sum_list (map (\<lambda>c. nsize (snd c)) list) < nsize nd"
  by (induction nd arbitrary: list rule: readDir.induct) (auto simp: sum_list_sort_key less_Suc_eq)

lemma walk_induct_aux:
  assumes node: "\<And>nd. (\<And>list. readDir nd = Inr list \<Longrightarrow> Q list) \<Longrightarrow> P nd"
    and nil: "Q []"
    and cons: "\<And>c rest. P (snd c) \<Longrightarrow> Q rest \<Longrightarrow> Q (c # rest)"
  shows "(\<forall>nd. 2 * nsize nd = n \<longrightarrow> P nd) \<and>
         (\<forall>cs. 2 * sum_list (map (\<lambda>c. nsize (snd c)) cs) + 1 = n \<longrightarrow> Q cs)"
proof (induction n rule: less_induct)
  case (less n)
  have P: "P nd" if "2 * nsize nd = n" for nd
  proof (rule node)
    fix list assume "readDir nd = Inr list"
    then have "2 * sum_list (map (\<lambda>c. nsize (snd c)) list) + 1 < n"
      using readDir_size [of nd list] that by simp
    then show "Q list" using less.IH by blast
  qed
  have Q: "Q cs" if "2 * sum_list (map (\<lambda>c. nsize (snd c)) cs) + 1 = n" for cs
  proof (cases cs)
    case Nil
    then show ?thesis using nil by simp
  next
    case (Cons c rest)
    have "2 * nsize (snd c) < n"
      using that Cons by simp
    then have 1: "P (snd c)" using less.IH by blast
    have "2 * sum_list (map (\<lambda>c. nsize (snd c)) rest) + 1 < n"
      using that Cons nsize_pos [of "snd c"] by simp
    then have 2: "Q rest" using less.IH by blast
    show ?thesis using cons [OF 1 2] Cons by simp
  qed
  show ?case using P Q by blast
qed

lemma walk_induct [case_names Node Nil Cons]:
  assumes "\<And>nd. (\<And>list. readDir nd = Inr list \<Longrightarrow> Q list) \<Longrightarrow> P nd"
    and "Q []"
    and "\<And>c rest. P (snd c) \<Longrightarrow> Q rest \<Longrightarrow> Q (c # rest)"
  shows "P nd" and "Q cs"
proof -
  have aux: "(\<forall>nd. 2 * nsize nd = n \<longrightarrow> P nd) \<and>
         (\<forall>cs. 2 * sum_list (map (\<lambda>c. nsize (snd c)) cs) + 1 = n \<longrightarrow> Q cs)" for n
    by (rule walk_induct_aux [where P = P and Q = Q]) (blast intro: assms)+
  show "P nd" using aux by blast
  show "Q cs" using aux by blast
qed

subsection \<open>What one call does\<close>

lemma resolve_Inl_is_link: "resolve nd = Inl e \<Longrightarrow> is_link nd"
  by (induction nd) auto

lemma compress_cases:
  assumes "compress OS name fPath fi wft = (wft', added, err)"
  shows "(wft' = wft \<and> \<not> added \<and> (\<exists>e. err = Some (OSError e)))
       \<or> (\<exists>b. wft' = put name fPath fi b wft \<and>
              ((added \<and> err = None) \<or> (\<not> added \<and> (\<exists>e. err = Some (OSError e)))))"
  using assms
  by (auto simp: compress_def compress_tar_def compress_zip_def Let_def
           split: backend.splits option.splits if_splits)


lemma same_setup_refl [simp]: "same_setup w w"
  by (simp add: same_setup_def)

lemma same_setup_trans: "same_setup a b \<Longrightarrow> same_setup b c \<Longrightarrow> same_setup a c"
  by (simp add: same_setup_def)

lemma same_setup_put [simp]: "same_setup w (put name fPath fi b w)"
  by (simp add: same_setup_def put_def)

lemma written_put [simp]:
  "written (put name fPath fi b w) = written w @ [\<lparr>e_name = name, e_src = fPath, e_fi = fi, e_body = b\<rparr>]"
  by (simp add: put_def)

lemma allFiles_put [simp]: "allFiles (put name fPath fi b w) = allFiles w"
  by (simp add: put_def)

lemma walkLeaf_cases:
  assumes "walkLeaf G OS fPath fi err wft = (wft', r)"
  shows "(wft' = wft \<and> (case err of Some e \<Rightarrow> r = Failed e | None \<Rightarrow> r = Nil \<or> r = Panicked))
       \<or> (\<exists>i name b. fi = Some i \<and> err = None \<and> fPath \<noteq> outputP G \<and> \<not> fi_IsDir i
             \<and> \<not> (ssym G \<and> fi_Symlink i) \<and> virPath OS wft fPath = Some name
             \<and> \<not> allFiles wft name \<and> same_setup wft wft'
             \<and> written wft' = written wft @ [\<lparr>e_name = name, e_src = fPath, e_fi = i, e_body = b\<rparr>]
             \<and> r = Nil)"
proof (cases err)
  case (Some e)
  then show ?thesis using assms by (simp add: walkLeaf_def)
next
  case None
  show ?thesis
  proof (cases "fPath = outputP G \<or> fi = None \<or> fi_IsDir (the fi) \<or> (ssym G \<and> fi_Symlink (the fi))
       \<or> virPath OS wft fPath = None \<or> allFiles wft (the (virPath OS wft fPath))")
    case True
    then show ?thesis using assms None
      by (auto simp: walkLeaf_def split: option.splits if_splits)
  next
    case False
    then obtain i name where i: "fi = Some i" and name: "virPath OS wft fPath = Some name"
      by auto
    obtain w1 added e1 where c: "compress OS name fPath i wft = (w1, added, e1)"
      by (cases "compress OS name fPath i wft") auto
    from compress_cases [OF c] show ?thesis
      using assms None False i name c
      by (auto simp: walkLeaf_def same_setup_def put_def)
  qed
qed

lemma iterDirectory_cases:
  assumes "iterDirectory G OS fPath fi0 nd wft = (wft', r)"
  shows "(wft' = wft \<and> (r = Nil \<or> r = Panicked))
    \<or> (\<exists>fi relPath wft1 r1.
         virPath OS wft fPath = Some relPath
       \<and> (relPath \<noteq> [] \<longrightarrow> (\<exists>i. fi = Some i \<and> \<not> isExcludeName wft (fi_Name i)) \<and> \<not> isExclude wft relPath)
       \<and> walkLeaf G OS fPath fi None wft = (wft1, r1)
       \<and> ((wft' = wft1 \<and> (r = Panicked \<or> r = r1 \<or> (r = Nil \<and> r1 = Failed SkipDir)))
          \<or> (r1 = Nil \<and> (\<exists>e. walkLeaf G OS fPath fi (Some (OSError e)) wft1 = (wft', r)))
          \<or> (r1 = Nil \<and> (\<exists>list. readDir nd = Inr list \<and> iterList G OS fPath list wft1 = (wft', r)))))"
  using assms
  apply (simp add: iterDirectory.simps Let_def split: if_splits option.splits prod.splits outcome.splits sum.splits)
  apply (auto)
  done


lemma entry_ok_setup: "same_setup w w' \<Longrightarrow> entry_ok G w' e = entry_ok G w e"
  by (simp add: entry_ok_def same_setup_def isExclude_def isExcludeName_def)

lemma grows_refl [simp]: "grows G w w"
  by (simp add: grows_def)

lemma grows_trans: "grows G a b \<Longrightarrow> grows G b c \<Longrightarrow> grows G a c"
  unfolding grows_def
  by (auto simp: entry_ok_setup list_all_iff dest: same_setup_trans)

lemma iterList_Cons_cases:
  assumes "iterList G OS fPath (c # rest) wft = (wft', r)"
  shows "\<exists>w1 r1. iterDirectory G OS (Join OS fPath (fst c)) (lstat_info (fst c) (snd c)) (snd c) wft = (w1, r1)
      \<and> ((wft' = w1 \<and> r = r1 \<and> r1 \<noteq> Nil)
         \<or> ((r1 = Nil \<or> r1 = Failed SkipDir) \<and> iterList G OS fPath rest w1 = (wft', r)))"
  using assms
  by (auto simp: Let_def lstat_info_def split: prod.splits outcome.splits if_splits)

lemma walkLeaf_grows:
  assumes "walkLeaf G OS fPath fi err wft = (wft', r)"
    and "err = None \<Longrightarrow> virPath OS wft fPath = Some relPath"
    and "relPath \<noteq> [] \<longrightarrow> (\<exists>i. fi = Some i \<and> \<not> isExcludeName wft (fi_Name i)) \<and> \<not> isExclude wft relPath"
  shows "grows G wft wft'"
  using walkLeaf_cases [OF assms(1)] assms(2,3)
  by (auto simp: grows_def entry_ok_def)

lemma iter_grows:
  "\<forall>fPath fi0 wft wft' r. iterDirectory G OS fPath fi0 nd wft = (wft', r) \<longrightarrow> grows G wft wft'"
  "\<forall>fPath wft wft' r. iterList G OS fPath cs wft = (wft', r) \<longrightarrow> grows G wft wft'"
proof (induction nd and cs rule: walk_induct)
  case (Node nd)
  show ?case
  proof (intro allI impI)
    fix fPath fi0 wft wft' r
    assume a: "iterDirectory G OS fPath fi0 nd wft = (wft', r)"
    from iterDirectory_cases [OF a] show "grows G wft wft'"
    proof (elim disjE exE conjE)
      fix fi relPath wft1 r1 list
      assume v: "virPath OS wft fPath = Some relPath"
        and x: "relPath \<noteq> [] \<longrightarrow> (\<exists>i. fi = Some i \<and> \<not> isExcludeName wft (fi_Name i)) \<and> \<not> isExclude wft relPath"
        and l: "walkLeaf G OS fPath fi None wft = (wft1, r1)"
        and rd: "readDir nd = Inr list" and it: "iterList G OS fPath list wft1 = (wft', r)"
      have 1: "grows G wft wft1" using walkLeaf_grows [OF l v x] by simp
      have 2: "grows G wft1 wft'" using Node [OF rd] it by blast
      show ?thesis using grows_trans [OF 1 2] .
    next
      fix fi relPath wft1 r1 e
      assume v: "virPath OS wft fPath = Some relPath"
        and x: "relPath \<noteq> [] \<longrightarrow> (\<exists>i. fi = Some i \<and> \<not> isExcludeName wft (fi_Name i)) \<and> \<not> isExclude wft relPath"
        and l: "walkLeaf G OS fPath fi None wft = (wft1, r1)"
        and l2: "walkLeaf G OS fPath fi (Some (OSError e)) wft1 = (wft', r)"
      have 1: "grows G wft wft1" using walkLeaf_grows [OF l v x] by simp
      have "wft' = wft1" using l2 by (simp add: walkLeaf_def)
      then show ?thesis using 1 by simp
    qed (auto intro: walkLeaf_grows)
  qed
next
  case Nil
  show ?case by simp
next
  case (Cons c rest)
  show ?case
  proof (intro allI impI)
    fix fPath wft wft' r
    assume a: "iterList G OS fPath (c # rest) wft = (wft', r)"
    from iterList_Cons_cases [OF a] obtain w1 r1 where
      d: "iterDirectory G OS (Join OS fPath (fst c)) (lstat_info (fst c) (snd c)) (snd c) wft = (w1, r1)"
      and k: "(wft' = w1 \<and> r = r1 \<and> r1 \<noteq> Nil)
         \<or> ((r1 = Nil \<or> r1 = Failed SkipDir) \<and> iterList G OS fPath rest w1 = (wft', r))"
      by blast
    have 1: "grows G wft w1" using Cons(1) d by blast
    from k show "grows G wft wft'"
    proof
      assume "wft' = w1 \<and> r = r1 \<and> r1 \<noteq> Nil"
      then show ?thesis using 1 by simp
    next
      assume "(r1 = Nil \<or> r1 = Failed SkipDir) \<and> iterList G OS fPath rest w1 = (wft', r)"
      then have "grows G w1 wft'" using Cons(2) by blast
      then show ?thesis using grows_trans [OF 1] by blast
    qed
  qed
qed


lemma walkRoot_grows: "walkRoot G OS root wft = (wft', r) \<Longrightarrow> grows G wft wft'"
proof -
  assume a: "walkRoot G OS root wft = (wft', r)"
  have s: "grows G wft (wft\<lparr>prefix := root\<rparr>)"
    by (simp add: grows_def same_setup_def)
  show ?thesis
  proof (cases "os_Stat OS root")
    case (Inl e)
    then show ?thesis using a s by (auto simp: walkRoot_def)
  next
    case (Inr nd)
    then have "iterDirectory G OS root (stat_info (Base OS root) nd) nd (wft\<lparr>prefix := root\<rparr>) = (wft', r)"
      using a by (simp add: walkRoot_def Let_def)
    then have "grows G (wft\<lparr>prefix := root\<rparr>) wft'"
      using iter_grows(1) by blast
    then show ?thesis using grows_trans [OF s] by blast
  qed
qed

lemma walkRoots_grows: "walkRoots G OS ps wft = (wft', r) \<Longrightarrow> grows G wft wft'"
proof (induction ps arbitrary: wft)
  case Nil
  then show ?case by simp
next
  case (Cons p ps)
  obtain w1 r1 where w: "walkRoot G OS p wft = (w1, r1)"
    by (cases "walkRoot G OS p wft") auto
  have 1: "grows G wft w1" using walkRoot_grows [OF w] .
  show ?case
  proof (cases "r1 = Nil")
    case True
    then have "grows G w1 wft'" using Cons w by simp
    then show ?thesis using grows_trans [OF 1] by blast
  next
    case False
    then have "wft' = w1" using Cons.prems w by (cases r1) auto
    then show ?thesis using 1 by simp
  qed
qed

lemma archive_entries_ok:
  "e \<in> set (archive (packDirectory G OS xp xs xr roots)) \<Longrightarrow> entry_ok G (new_walk G xp xs xr) e"
proof (cases "io_OpenFile OS (outputP G)")
  case (Some err)
  assume "e \<in> set (archive (packDirectory G OS xp xs xr roots))"
  then show ?thesis using Some by (simp add: archive_def packDirectory_def)
next
  case None
  assume e: "e \<in> set (archive (packDirectory G OS xp xs xr roots))"
  obtain w1 r1 where w: "walkRoots G OS roots (new_walk G xp xs xr) = (w1, r1)"
    by (cases "walkRoots G OS roots (new_walk G xp xs xr)") auto
  from walkRoots_grows [OF w] e None w show ?thesis
    by (auto simp: archive_def packDirectory_def grows_def new_walk_def list_all_iff)
qed

subsection \<open>The back end and the set of written names\<close>

lemma compress_allFiles: "allFiles (fst (compress OS name fPath fi wft)) = allFiles wft"
  by (cases "compress OS name fPath fi wft") (auto dest!: compress_cases)

subsection \<open>Links and their targets\<close>

lemma resolve_Inr_readDir: "resolve nd = Inr t \<Longrightarrow> readDir nd = readDir t"
  by (induction nd) auto

lemma resolve_Inr_idem: "resolve nd = Inr t \<Longrightarrow> resolve t = Inr t"
  by (induction nd) auto

subsection \<open>The order of a listing\<close>

lemma canon_is_dir [simp]: "is_dir (canon nd) = is_dir nd"
  by (cases nd) simp_all

lemma canon_is_link [simp]: "is_link (canon nd) = is_link nd"
  by (cases nd) simp_all

lemma resolve_canon:
  "resolve (canon nd) = (case resolve nd of Inl e \<Rightarrow> Inl e | Inr t \<Rightarrow> Inr (canon t))"
  by (induction nd) simp_all

lemma map_insort_key_fst:
  "map (\<lambda>c. (fst c, g (snd c))) (insort_key fst x xs)
   = insort_key fst (fst x, g (snd x)) (map (\<lambda>c. (fst c, g (snd c))) xs)"
  by (induction xs) simp_all

lemma map_sort_key_fst:
  "map (\<lambda>c. (fst c, g (snd c))) (sort_key fst xs) = sort_key fst (map (\<lambda>c. (fst c, g (snd c))) xs)"
  by (induction xs) (simp_all add: map_insort_key_fst)

lemma readDir_canon:
  "readDir (canon nd)
   = (case readDir nd of Inl e \<Rightarrow> Inl e
      | Inr list \<Rightarrow> Inr (map (\<lambda>c. (fst c, canon (snd c))) list))"
proof (induction nd)
  case (Dir cs)
  have "sort_key fst (sort_key fst (map (\<lambda>c. (fst c, canon (snd c))) cs))
      = sort_key fst (map (\<lambda>c. (fst c, canon (snd c))) cs)"
    by (rule sort_key_id_if_sorted) (rule sorted_sort_key)
  then show ?case by (simp add: map_sort_key_fst)
qed simp_all

lemma readDir_sorted: "readDir nd = Inr list \<Longrightarrow> sorted (map fst list)"
  by (induction nd arbitrary: list) (auto simp: sorted_sort_key)

lemma compress_fs [simp]: "compress (OS\<lparr>fs := f\<rparr>) name fPath fi wft = compress OS name fPath fi wft"
  by (cases "wak wft")
     (simp_all add: compress_def compress_tar_def compress_zip_def cong: option.case_cong if_cong)

lemma virPath_fs [simp]: "virPath (OS\<lparr>fs := f\<rparr>) wft fPath = virPath OS wft fPath"
  by (simp add: virPath_def)

lemma walkLeaf_fs [simp]: "walkLeaf G (OS\<lparr>fs := f\<rparr>) fPath fi err wft = walkLeaf G OS fPath fi err wft"
  by (simp add: walkLeaf_def cong: option.case_cong if_cong)

lemma iter_canon:
  "\<forall>fPath fi0 wft. iterDirectory G (OS\<lparr>fs := f\<rparr>) fPath fi0 (canon nd) wft
       = iterDirectory G OS fPath fi0 nd wft"
  "\<forall>fPath wft. iterList G (OS\<lparr>fs := f\<rparr>) fPath (map (\<lambda>c. (fst c, canon (snd c))) cs) wft
       = iterList G OS fPath cs wft"
proof (induction nd and cs rule: walk_induct)
  case (Node nd)
  show ?case
  proof (intro allI)
    fix fPath fi0 wft
    show "iterDirectory G (OS\<lparr>fs := f\<rparr>) fPath fi0 (canon nd) wft = iterDirectory G OS fPath fi0 nd wft"
    proof (cases "readDir nd")
      case (Inl e)
      then have rc: "readDir (canon nd) = Inl e" by (simp add: readDir_canon)
      show ?thesis
        by (cases "resolve nd")
           (simp_all add: iterDirectory.simps resolve_canon rc Inl stat_info_def Let_def
              cong: option.case_cong prod.case_cong outcome.case_cong if_cong)
    next
      case (Inr list)
      then have rc: "readDir (canon nd) = Inr (map (\<lambda>c. (fst c, canon (snd c))) list)"
        by (simp add: readDir_canon)
      have ih: "iterList G (OS\<lparr>fs := f\<rparr>) fPath (map (\<lambda>c. (fst c, canon (snd c))) list) w
          = iterList G OS fPath list w" for w
        using Node [OF Inr] by blast
      show ?thesis
        by (cases "resolve nd")
           (simp_all add: iterDirectory.simps resolve_canon rc Inr ih stat_info_def Let_def
              cong: option.case_cong prod.case_cong outcome.case_cong if_cong)
    qed
  qed
next
  case Nil
  show ?case by simp
next
  case (Cons c rest)
  then show ?case
    by (simp add: lstat_info_def Let_def cong: prod.case_cong outcome.case_cong if_cong)
qed


lemma walkRoot_canon:
  assumes "map_option canon (f p) = map_option canon (fs OS p)"
  shows "walkRoot G (OS\<lparr>fs := f\<rparr>) p wft = walkRoot G OS p wft"
proof (cases "fs OS p")
  case None
  then show ?thesis using assms by (simp add: walkRoot_def os_Stat_def)
next
  case (Some nd)
  then obtain nd' where f: "f p = Some nd'" and c: "canon nd' = canon nd"
    using assms by (cases "f p") auto
  have r: "resolve (canon nd') = resolve (canon nd)" using c by simp
  show ?thesis
  proof (cases "resolve nd")
    case (Inl e)
    then have "resolve nd' = Inl e"
      using r by (auto simp: resolve_canon split: sum.splits)
    then show ?thesis using Inl Some f by (simp add: walkRoot_def os_Stat_def)
  next
    case (Inr t)
    then obtain t' where t': "resolve nd' = Inr t'" and ct: "canon t' = canon t"
      using r by (auto simp: resolve_canon split: sum.splits)
    have d: "is_dir t' = is_dir t"
      using ct by (metis canon_is_dir)
    have "iterDirectory G (OS\<lparr>fs := f\<rparr>) p (stat_info (Base OS p) t') t' (wft\<lparr>prefix := p\<rparr>)
        = iterDirectory G (OS\<lparr>fs := f\<rparr>) p (stat_info (Base OS p) t') (canon t') (wft\<lparr>prefix := p\<rparr>)"
      using iter_canon(1) [where G = G and OS = "OS\<lparr>fs := f\<rparr>" and f = f and nd = t'] by simp
    also have "\<dots> = iterDirectory G OS p (stat_info (Base OS p) t) t (wft\<lparr>prefix := p\<rparr>)"
      using iter_canon(1) [where G = G and OS = OS and f = f and nd = t] ct d
      by (simp add: stat_info_def)
    finally show ?thesis
      using Inr t' Some f by (simp add: walkRoot_def os_Stat_def)
  qed
qed

lemma walkRoots_canon:
  assumes "\<forall>p. map_option canon (f p) = map_option canon (fs OS p)"
  shows "walkRoots G (OS\<lparr>fs := f\<rparr>) ps wft = walkRoots G OS ps wft"
  using assms by (induction ps arbitrary: wft) (simp_all add: walkRoot_canon)

lemma canon_Dir_perm:
  assumes "mset cs' = mset cs" and "distinct (map fst cs)"
  shows "canon (Dir cs') = canon (Dir cs)"
proof -
  let ?g = "\<lambda>c. (fst c, canon (snd c))"
  let ?xs = "sort_key fst (map ?g cs')" and ?ys = "sort_key fst (map ?g cs)"
  have f: "map fst (map ?g zs) = map fst zs" for zs :: "(string \<times> node) list"
    by (induction zs) simp_all
  have k: "mset (map fst cs') = mset (map fst cs)"
    using arg_cong [OF assms(1), of "image_mset fst"] by simp
  have d: "distinct (map fst (map ?g cs))"
    using assms(2) by (simp only: f)
  have d': "distinct (map fst (map ?g cs'))"
    using mset_eq_imp_distinct_iff [OF k] assms(2) by (simp only: f)
  have "set cs' = set cs"
    using assms(1) by (rule mset_eq_setD)
  then have s: "set (map ?g cs') = set (map ?g cs)"
    by simp
  have i: "inj_on fst (set (map ?g cs))"
    using d unfolding distinct_map by blast
  have 1: "inj_on fst (set ?xs \<union> set ?ys)"
    using i by (simp only: set_sort s Un_absorb)
  have m: "mset (map fst (sort_key fst zs)) = mset (map fst zs)" for zs :: "(string \<times> node) list"
    by simp
  have 2: "distinct (map fst ?xs)" "distinct (map fst ?ys)"
    using d d' mset_eq_imp_distinct_iff [OF m] by blast+
  have "?xs = ?ys"
    by (rule map_sorted_distinct_set_unique [OF 1 sorted_sort_key 2(1) sorted_sort_key 2(2)])
       (simp only: set_sort s)
  then show ?thesis by simp
qed

subsection \<open>The steps of \<^verbatim>\<open>packApp\<close> before \<^verbatim>\<open>packDirectory\<close>\<close>

lemma compile_all_None:
  "(compile_all OS rs = None) = list_ex (\<lambda>r. length r > 0 \<and> regexp_Compile OS r = None) rs"
  by (induction rs) (auto split: option.splits)

lemma packApp_no_file_before_packDirectory:
  assumes "compile_all OS (excludeR G) = None"
  shows "fst (packApp G OS) = None \<and> (snd (packApp G OS) = Fatal \<or> snd (packApp G OS) = Crashed)"
  using assms
  by (simp add: packApp_def Let_def split: sum.splits)

section \<open>The claims\<close>

subsection \<open>Deduplication across roots\<close>

text \<open>
  Claim C1 does not hold of the code.  \<^verbatim>\<open>walkLeaf\<close> tests \<^verbatim>\<open>allFiles\<close> before it calls
  \<^verbatim>\<open>compress\<close> and records the name when \<^verbatim>\<open>compress\<close> has added the entry, but it does
  not return the error of a failed \<^verbatim>\<open>compress\<close>: the walk goes on, with the name not
  recorded.  When the back end had written the header before it failed, a later root that
  holds a file at the same relative path writes the name a second time.  Here the zip
  back end cannot open \<^verbatim>\<open>x/y.txt\<close> of the first root: the run returns \<^verbatim>\<open>nil\<close>, the archive
  holds the name \<^verbatim>\<open>x/y.txt\<close> twice, and the entry with content is sourced from the later
  root.
\<close>

theorem swallowed_error_duplicates_name:
  "io_Open unreadable_host ''/tmp/build/x/y.txt'' = Some ErrPermission
   \<and> map (\<lambda>e. (e_name e, e_src e, e_body e))
        (archive (packDirectory (flags0\<lparr>format := ''zip''\<rparr>) unreadable_host [''.''] [''.go''] []
           [''/tmp/build'', ''/app'']))
      = [(''app'', ''/tmp/build/app'', Content),
         (''x/y.txt'', ''/tmp/build/x/y.txt'', Incomplete),
         (''README.md'', ''/app/README.md'', Content),
         (''app.tar.gz'', ''/app/app.tar.gz'', Content),
         (''gone'', ''/app/gone'', LinkTarget),
         (''l'', ''/app/l'', LinkTarget),
         (''x/y.txt'', ''/app/x/y.txt'', Content),
         (''x/z'', ''/app/x/z'', Content)]
   \<and> snd (packDirectory (flags0\<lparr>format := ''zip''\<rparr>) unreadable_host [''.''] [''.go''] []
          [''/tmp/build'', ''/app'']) = Nil
   \<and> \<not> distinct (map e_name
          (archive (packDirectory (flags0\<lparr>format := ''zip''\<rparr>) unreadable_host [''.''] [''.go''] []
             [''/tmp/build'', ''/app''])))"
  by code_simp

subsection \<open>The empty logical name\<close>

text \<open>
  Claim C3, as amended.  \<^verbatim>\<open>isExclude\<close> answers \<^verbatim>\<open>true\<close> for the empty logical name under
  every rule configuration.  The root is walked all the same, because \<^verbatim>\<open>iterDirectory\<close>
  consults the exclusion predicates for a non-empty logical name only: a root directory
  is listed and its children are walked whatever the rules are.
\<close>

theorem empty_name_excluded_but_root_walked:
  "isExclude wft [] \<and>
   (os_Stat OS root = Inr (Dir cs) \<longrightarrow>
      walkRoot G OS root wft = iterList G OS root (sort_key fst cs) (wft\<lparr>prefix := root\<rparr>))"
  by (auto simp: isExclude_def walkRoot_def iterDirectory.simps stat_info_def virPath_def
        walkLeaf_def Let_def)

theorem empty_name_excluded_but_root_walked_witness:
  "os_Stat (unix demo_tree) ''/tmp/build'' = Inr (Dir [(''x'', Dir [(''y.txt'', File)]), (''app'', File)])
   \<and> isExclude (new_walk flags0 [''/''] [''d''] [\<lambda>_. True]) []
   \<and> walkRoot flags0 (unix demo_tree) ''/tmp/build'' (new_walk flags0 [''/''] [''d''] [\<lambda>_. True])
      = iterList flags0 (unix demo_tree) ''/tmp/build''
          (sort_key fst [(''x'', Dir [(''y.txt'', File)]), (''app'', File)])
          ((new_walk flags0 [''/''] [''d''] [\<lambda>_. True])\<lparr>prefix := ''/tmp/build''\<rparr>)"
proof -
  have a: "os_Stat (unix demo_tree) ''/tmp/build''
      = Inr (Dir [(''x'', Dir [(''y.txt'', File)]), (''app'', File)])"
    by (simp add: os_Stat_def unix_def demo_tree_def)
  show ?thesis
    using a empty_name_excluded_but_root_walked [of "new_walk flags0 [''/''] [''d''] [\<lambda>_. True]"
        "unix demo_tree" "''/tmp/build''" "[(''x'', Dir [(''y.txt'', File)]), (''app'', File)]" flags0]
    by blast
qed

theorem empty_name_counterexample:
  "isExclude (new_walk flags0 [] [] []) [] = True"
  by (simp add: isExclude_def)

subsection \<open>Exclusion\<close>

text \<open>
  Claim C4.  No entry of the output archive with a non-empty logical name has a name that
  starts with a configured prefix or ends with a configured suffix, and none was written
  for a file whose base name (the \<^verbatim>\<open>Name()\<close> of its \<^verbatim>\<open>os.FileInfo\<close>) matches a configured
  regular expression.  Any one matching rule keeps the file out; nothing brings it back.
\<close>

theorem excluded_never_archived:
  "\<forall>e \<in> set (archive (packDirectory G OS xp xs xr roots)). e_name e \<noteq> [] \<longrightarrow>
     \<not> list_ex (HasPrefix (e_name e)) xp \<and> \<not> list_ex (HasSuffix (e_name e)) xs
     \<and> \<not> list_ex (\<lambda>re. re (fi_Name (e_fi e))) xr"
proof (intro ballI impI)
  fix e
  assume "e \<in> set (archive (packDirectory G OS xp xs xr roots))" and "e_name e \<noteq> []"
  then have "\<not> isExcludeName (new_walk G xp xs xr) (fi_Name (e_fi e))"
    and "\<not> isExclude (new_walk G xp xs xr) (e_name e)"
    using archive_entries_ok [of e G OS xp xs xr roots] by (simp_all add: entry_ok_def)
  then show "\<not> list_ex (HasPrefix (e_name e)) xp \<and> \<not> list_ex (HasSuffix (e_name e)) xs
     \<and> \<not> list_ex (\<lambda>re. re (fi_Name (e_fi e))) xr"
    by (simp add: isExclude_def isExcludeName_def new_walk_def split: if_splits)
qed

theorem excluded_never_archived_witness:
  "map e_name (archive (packDirectory flags0 (unix demo_tree) [''.''] [''.go''] [\<lambda>n. n = ''z'']
        [''/tmp/build'', ''/app'']))
     = [''app'', ''x/y.txt'', ''README.md'', ''app.tar.gz'', ''gone'', ''l'']
   \<and> list_all (\<lambda>e. e_name e \<noteq> [] \<longrightarrow>
          \<not> list_ex (HasPrefix (e_name e)) [''.''] \<and> \<not> list_ex (HasSuffix (e_name e)) [''.go'']
          \<and> \<not> list_ex (\<lambda>re. re (fi_Name (e_fi e))) [\<lambda>n. n = ''z''])
        (archive (packDirectory flags0 (unix demo_tree) [''.''] [''.go''] [\<lambda>n. n = ''z'']
           [''/tmp/build'', ''/app'']))"
proof -
  have a: "map e_name (archive (packDirectory flags0 (unix demo_tree) [''.''] [''.go''] [\<lambda>n. n = ''z'']
        [''/tmp/build'', ''/app'']))
     = [''app'', ''x/y.txt'', ''README.md'', ''app.tar.gz'', ''gone'', ''l'']"
    by code_simp
  show ?thesis
    using a excluded_never_archived [of flags0 "unix demo_tree" "[''.'']" "[''.go'']"
        "[\<lambda>n. n = ''z'']" "[''/tmp/build'', ''/app'']"]
    unfolding list_all_iff by blast
qed

subsection \<open>The output file inside a root\<close>

text \<open>
  Claim C9.  No entry of the output archive was read from the output path: \<^verbatim>\<open>walkLeaf\<close>
  returns \<^verbatim>\<open>nil\<close> for the node at that path and leaves the walker as it was, so the
  output file is not an entry of itself.
\<close>

theorem output_file_never_archived:
  "(\<forall>e \<in> set (archive (packDirectory G OS xp xs xr roots)). e_src e \<noteq> outputP G)
   \<and> walkLeaf G OS (outputP G) fi None wft = (wft, Nil)"
proof -
  have "e_src e \<noteq> outputP G" if "e \<in> set (archive (packDirectory G OS xp xs xr roots))" for e
    using archive_entries_ok [OF that] by (simp add: entry_ok_def)
  moreover have "walkLeaf G OS (outputP G) fi None wft = (wft, Nil)"
    by (simp add: walkLeaf_def)
  ultimately show ?thesis by blast
qed

theorem output_file_never_archived_witness:
  "map e_src (archive (packDirectory (flags0\<lparr>outputP := ''/app/app.tar.gz''\<rparr>) (unix demo_tree)
        [''.''] [''.go''] [] [''/app'']))
     = [''/app/README.md'', ''/app/gone'', ''/app/l'', ''/app/x/y.txt'', ''/app/x/z'']
   \<and> list_all (\<lambda>e. e_src e \<noteq> outputP (flags0\<lparr>outputP := ''/app/app.tar.gz''\<rparr>))
        (archive (packDirectory (flags0\<lparr>outputP := ''/app/app.tar.gz''\<rparr>) (unix demo_tree)
           [''.''] [''.go''] [] [''/app'']))
   \<and> walkLeaf (flags0\<lparr>outputP := ''/app/app.tar.gz''\<rparr>) (unix demo_tree)
        (outputP (flags0\<lparr>outputP := ''/app/app.tar.gz''\<rparr>)) (Some (regular ''app.tar.gz'')) None
        (new_walk flags0 [] [] [])
      = (new_walk flags0 [] [] [], Nil)"
proof -
  have a: "map e_src (archive (packDirectory (flags0\<lparr>outputP := ''/app/app.tar.gz''\<rparr>) (unix demo_tree)
        [''.''] [''.go''] [] [''/app'']))
     = [''/app/README.md'', ''/app/gone'', ''/app/l'', ''/app/x/y.txt'', ''/app/x/z'']"
    by code_simp
  show ?thesis
    using a output_file_never_archived [of "flags0\<lparr>outputP := ''/app/app.tar.gz''\<rparr>"
        "unix demo_tree" "[''.'']" "[''.go'']" "[]" "[''/app'']" "Some (regular ''app.tar.gz'')"
        "new_walk flags0 [] [] []"]
    unfolding list_all_iff by blast
qed

subsection \<open>A followed link whose target is gone\<close>

text \<open>
  Claim C8.  With the follow-symlink flag set, visiting a symbolic link through which
  \<^verbatim>\<open>os.Stat\<close> fails with a does-not-exist error returns \<^verbatim>\<open>nil\<close> and leaves the walker as
  it was, and the loop over the directory goes on with the next sibling.
\<close>

theorem dangling_link_ignored:
  assumes "fsym G" and "resolve nd = Inl e" and "IsNotExist e"
  shows "iterDirectory G OS fPath (lstat_info n nd) nd wft = (wft, Nil)
       \<and> iterList G OS dir ((n, nd) # rest) wft = iterList G OS dir rest wft"
  using assms resolve_Inl_is_link [OF assms(2)]
  by (auto simp: iterDirectory.simps lstat_info_def Let_def)

theorem dangling_link_ignored_witness:
  "fsym (flags0\<lparr>fsym := True\<rparr>) \<and> resolve (BadLink ErrNotExist) = Inl ErrNotExist
   \<and> IsNotExist ErrNotExist
   \<and> iterDirectory (flags0\<lparr>fsym := True\<rparr>) (unix demo_tree) ''/app/gone''
        (lstat_info ''gone'' (BadLink ErrNotExist)) (BadLink ErrNotExist)
        ((new_walk flags0 [] [] [])\<lparr>prefix := ''/app''\<rparr>)
      = ((new_walk flags0 [] [] [])\<lparr>prefix := ''/app''\<rparr>, Nil)
   \<and> iterList (flags0\<lparr>fsym := True\<rparr>) (unix demo_tree) ''/app''
        ((''gone'', BadLink ErrNotExist) # [(''l'', Link File)])
        ((new_walk flags0 [] [] [])\<lparr>prefix := ''/app''\<rparr>)
      = iterList (flags0\<lparr>fsym := True\<rparr>) (unix demo_tree) ''/app'' [(''l'', Link File)]
          ((new_walk flags0 [] [] [])\<lparr>prefix := ''/app''\<rparr>)"
proof -
  have a: "fsym (flags0\<lparr>fsym := True\<rparr>)" by simp
  have b: "resolve (BadLink ErrNotExist) = Inl ErrNotExist" by simp
  have c: "IsNotExist ErrNotExist" by simp
  show ?thesis
    using a b c dangling_link_ignored [OF a b c, of "unix demo_tree" "''/app/gone''" "''gone''"
        "(new_walk flags0 [] [] [])\<lparr>prefix := ''/app''\<rparr>" "''/app''" "[(''l'', Link File)]"]
    by simp
qed

subsection \<open>A followed link through which \<^verbatim>\<open>os.Stat\<close> fails otherwise\<close>

text \<open>
  Claim C10.  With the follow-symlink flag set, visiting a symbolic link through which
  \<^verbatim>\<open>os.Stat\<close> fails with an error other than does-not-exist panics: the \<^verbatim>\<open>nil\<close> result of
  \<^verbatim>\<open>os.Stat\<close> replaces the \<^verbatim>\<open>os.FileInfo\<close> of the node and is dereferenced.  The node is
  not skipped and the error is not returned; the loop over the directory ends in the panic.
\<close>

theorem follow_stat_error_panics:
  assumes "fsym G" and "resolve nd = Inl e" and "\<not> IsNotExist e"
  shows "iterDirectory G OS fPath (lstat_info n nd) nd wft = (wft, Panicked)
       \<and> iterList G OS dir ((n, nd) # rest) wft = (wft, Panicked)"
  using assms resolve_Inl_is_link [OF assms(2)]
  by (auto simp: iterDirectory.simps lstat_info_def walkLeaf_def Let_def split: option.splits)

theorem follow_stat_error_panics_witness:
  "fsym (flags0\<lparr>fsym := True\<rparr>) \<and> resolve (Link (BadLink ErrPermission)) = Inl ErrPermission
   \<and> \<not> IsNotExist ErrPermission
   \<and> iterDirectory (flags0\<lparr>fsym := True\<rparr>) (unix demo_tree) ''/app/k''
        (lstat_info ''k'' (Link (BadLink ErrPermission))) (Link (BadLink ErrPermission))
        ((new_walk flags0 [] [] [])\<lparr>prefix := ''/app''\<rparr>)
      = ((new_walk flags0 [] [] [])\<lparr>prefix := ''/app''\<rparr>, Panicked)
   \<and> iterList (flags0\<lparr>fsym := True\<rparr>) (unix demo_tree) ''/app''
        ((''k'', Link (BadLink ErrPermission)) # [(''z'', File)])
        ((new_walk flags0 [] [] [])\<lparr>prefix := ''/app''\<rparr>)
      = ((new_walk flags0 [] [] [])\<lparr>prefix := ''/app''\<rparr>, Panicked)"
proof -
  have a: "fsym (flags0\<lparr>fsym := True\<rparr>)" by simp
  have b: "resolve (Link (BadLink ErrPermission)) = Inl ErrPermission" by simp
  have c: "\<not> IsNotExist ErrPermission" by simp
  show ?thesis
    using a b c follow_stat_error_panics [OF a b c, of "unix demo_tree" "''/app/k''" "''k''"
        "(new_walk flags0 [] [] [])\<lparr>prefix := ''/app''\<rparr>" "''/app''" "[(''z'', File)]"]
    by simp
qed

subsection \<open>Who keeps the set of written names\<close>

text \<open>
  Claim C2, as amended.  \<^verbatim>\<open>compress\<close> neither reads nor changes the set of written names
  (\<^verbatim>\<open>allFiles\<close>): its result is the same whatever the set holds, and the set comes out as
  it went in.  So, called with a name that is already written, it writes the entry again
  and returns \<^verbatim>\<open>wasAdded = true\<close> with a \<^verbatim>\<open>nil\<close> error whenever no I/O call fails.  The
  check and the insertion are \<^verbatim>\<open>walkLeaf\<close>'s: for a name already in the set it returns
  \<^verbatim>\<open>nil\<close> without calling \<^verbatim>\<open>compress\<close>, leaving the walker as it was; and a call of
  \<^verbatim>\<open>walkLeaf\<close> either leaves the set as it was or adds the one name for which \<^verbatim>\<open>compress\<close>
  returned \<^verbatim>\<open>wasAdded = true\<close>.
\<close>

theorem dedup_is_walkLeafs:
  "allFiles (fst (compress OS name fPath fi wft)) = allFiles wft
   \<and> compress OS name fPath fi (wft\<lparr>allFiles := names\<rparr>)
      = (case compress OS name fPath fi wft of
           (wft', added, e) \<Rightarrow> (wft'\<lparr>allFiles := names\<rparr>, added, e))
   \<and> (io_FileInfoHeader OS fPath = None \<and> io_WriteHeader OS name = None
       \<and> io_CreateHeader OS name = None \<and> io_Open OS fPath = None \<and> io_Copy OS fPath = None
       \<and> io_Readlink OS fPath = None \<and> io_Write OS fPath = None \<longrightarrow>
        compress OS name fPath fi wft
        = (put name fPath fi (if fi_Symlink fi then LinkTarget else Content) wft, True, None))
   \<and> (virPath OS wft fPath = Some name \<and> allFiles wft name \<longrightarrow>
        walkLeaf G OS fPath (Some fi) None wft = (wft, Nil))
   \<and> (allFiles (fst (walkLeaf G OS fPath (Some fi) err wft)) = allFiles wft
       \<or> (\<exists>name. virPath OS wft fPath = Some name
             \<and> fst (snd (compress OS name fPath fi wft))
             \<and> allFiles (fst (walkLeaf G OS fPath (Some fi) err wft)) = (allFiles wft)(name := True)))"
proof (intro conjI)
  show "allFiles (fst (compress OS name fPath fi wft)) = allFiles wft"
    by (rule compress_allFiles)
  show "compress OS name fPath fi (wft\<lparr>allFiles := names\<rparr>)
      = (case compress OS name fPath fi wft of
           (wft', added, e) \<Rightarrow> (wft'\<lparr>allFiles := names\<rparr>, added, e))"
    by (cases "wak wft")
       (simp_all add: compress_def compress_tar_def compress_zip_def put_def Let_def
          split: option.splits)
  show "io_FileInfoHeader OS fPath = None \<and> io_WriteHeader OS name = None
       \<and> io_CreateHeader OS name = None \<and> io_Open OS fPath = None \<and> io_Copy OS fPath = None
       \<and> io_Readlink OS fPath = None \<and> io_Write OS fPath = None \<longrightarrow>
        compress OS name fPath fi wft
        = (put name fPath fi (if fi_Symlink fi then LinkTarget else Content) wft, True, None)"
    by (cases "wak wft") (simp_all add: compress_def compress_tar_def compress_zip_def)
  show "virPath OS wft fPath = Some name \<and> allFiles wft name \<longrightarrow>
        walkLeaf G OS fPath (Some fi) None wft = (wft, Nil)"
    by (simp add: walkLeaf_def)
  show "allFiles (fst (walkLeaf G OS fPath (Some fi) err wft)) = allFiles wft
       \<or> (\<exists>name. virPath OS wft fPath = Some name
             \<and> fst (snd (compress OS name fPath fi wft))
             \<and> allFiles (fst (walkLeaf G OS fPath (Some fi) err wft)) = (allFiles wft)(name := True))"
  proof (cases "virPath OS wft fPath")
    case None
    then show ?thesis by (simp add: walkLeaf_def split: option.splits)
  next
    case (Some nm)
    obtain w1 added e1 where c: "compress OS nm fPath fi wft = (w1, added, e1)"
      by (cases "compress OS nm fPath fi wft") auto
    have "allFiles w1 = allFiles wft"
      using compress_allFiles [of OS nm fPath fi wft] c by simp
    then show ?thesis using Some c
      by (auto simp: walkLeaf_def split: option.splits)
  qed
qed

theorem dedup_is_walkLeafs_witness:
  "virPath (unix demo_tree) written_once ''/app/README.md'' = Some ''README.md''
   \<and> allFiles written_once ''README.md''
   \<and> walkLeaf flags0 (unix demo_tree) ''/app/README.md'' (Some (regular ''README.md'')) None written_once
      = (written_once, Nil)
   \<and> allFiles (fst (compress (unix demo_tree) ''README.md'' ''/app/README.md'' (regular ''README.md'')
        written_once)) = allFiles written_once
   \<and> io_FileInfoHeader (unix demo_tree) ''/app/README.md'' = None
   \<and> io_WriteHeader (unix demo_tree) ''README.md'' = None
   \<and> io_CreateHeader (unix demo_tree) ''README.md'' = None
   \<and> io_Open (unix demo_tree) ''/app/README.md'' = None
   \<and> io_Copy (unix demo_tree) ''/app/README.md'' = None
   \<and> io_Readlink (unix demo_tree) ''/app/README.md'' = None
   \<and> io_Write (unix demo_tree) ''/app/README.md'' = None
   \<and> compress (unix demo_tree) ''README.md'' ''/app/README.md'' (regular ''README.md'') written_once
      = (put ''README.md'' ''/app/README.md'' (regular ''README.md'')
           (if fi_Symlink (regular ''README.md'') then LinkTarget else Content) written_once,
         True, None)"
proof -
  have a: "virPath (unix demo_tree) written_once ''/app/README.md'' = Some ''README.md''"
    by (simp add: virPath_def written_once_def unix_def)
  have b: "allFiles written_once ''README.md''"
    by (simp add: written_once_def)
  have c: "io_FileInfoHeader (unix demo_tree) ''/app/README.md'' = None
       \<and> io_WriteHeader (unix demo_tree) ''README.md'' = None
       \<and> io_CreateHeader (unix demo_tree) ''README.md'' = None
       \<and> io_Open (unix demo_tree) ''/app/README.md'' = None
       \<and> io_Copy (unix demo_tree) ''/app/README.md'' = None
       \<and> io_Readlink (unix demo_tree) ''/app/README.md'' = None
       \<and> io_Write (unix demo_tree) ''/app/README.md'' = None"
    by (simp add: unix_def)
  show ?thesis
    using a b c dedup_is_walkLeafs [of "unix demo_tree" "''README.md''" "''/app/README.md''"
        "regular ''README.md''" written_once "allFiles written_once" flags0 None]
    by blast
qed

theorem compress_twice_counterexample:
  "allFiles written_once ''README.md''
   \<and> snd (compress (unix demo_tree) ''README.md'' ''/app/README.md'' (regular ''README.md'') written_once)
      = (True, None)
   \<and> map e_name (written (fst (compress (unix demo_tree) ''README.md'' ''/app/README.md''
        (regular ''README.md'') written_once)))
      = [''README.md'', ''README.md'']"
  by (simp add: written_once_def compress_def compress_tar_def new_walk_def flags0_def unix_def
        regular_def put_def)

subsection \<open>Skipping and following symbolic links\<close>

text \<open>
  Claim C6, as amended.  With the skip-symlink flag set, no entry of the archive is
  written from an \<^verbatim>\<open>os.FileInfo\<close> with the symlink mode; and with the follow-symlink flag
  not set as well, visiting a symbolic link that a directory listing holds leaves the
  walker as it was (nothing is written, nothing is recursed into) and returns \<^verbatim>\<open>nil\<close>.
  Two cases are not covered by the skip.  A root is resolved with \<^verbatim>\<open>os.Stat\<close> by
  \<^verbatim>\<open>walkRoot\<close>, whatever the flags: a root that is a symbolic link is walked as its target.
  And with the follow-symlink flag set, a link whose target exists is walked as its
  target, whether or not the skip-symlink flag is set: follow comes first, and the skip
  test then sees the \<^verbatim>\<open>os.FileInfo\<close> of the target.
\<close>

theorem skip_without_follow:
  "(ssym G \<and> \<not> fsym G \<and> is_link nd \<longrightarrow>
      fst (iterDirectory G OS fPath (lstat_info n nd) nd wft) = wft
      \<and> (virPath OS wft fPath \<noteq> None \<longrightarrow>
            snd (iterDirectory G OS fPath (lstat_info n nd) nd wft) = Nil))
   \<and> (ssym G \<longrightarrow>
        list_all (\<lambda>e. \<not> fi_Symlink (e_fi e)) (archive (packDirectory G OS xp xs xr roots)))
   \<and> (fs OS root = Some nd \<and> resolve nd = Inr t \<longrightarrow>
        walkRoot G OS root wft
        = iterDirectory G OS root (stat_info (Base OS root) t) t (wft\<lparr>prefix := root\<rparr>))
   \<and> (fsym G \<and> is_link nd \<and> resolve nd = Inr t \<longrightarrow>
        iterDirectory G OS fPath (lstat_info n nd) nd wft
        = iterDirectory G OS fPath (stat_info (Base OS fPath) t) t wft)"
proof (intro conjI impI)
  assume a: "ssym G \<and> \<not> fsym G \<and> is_link nd"
  then have d: "\<not> is_dir nd" by (cases nd) auto
  show "fst (iterDirectory G OS fPath (lstat_info n nd) nd wft) = wft"
    using a d
    by (auto simp: iterDirectory.simps lstat_info_def walkLeaf_def Let_def split: option.splits)
  assume "virPath OS wft fPath \<noteq> None"
  then show "snd (iterDirectory G OS fPath (lstat_info n nd) nd wft) = Nil"
    using a d
    by (auto simp: iterDirectory.simps lstat_info_def walkLeaf_def Let_def split: option.splits)
next
  assume s: "ssym G"
  have "\<not> fi_Symlink (e_fi e)" if "e \<in> set (archive (packDirectory G OS xp xs xr roots))" for e
    using archive_entries_ok [OF that] s by (simp add: entry_ok_def)
  then show "list_all (\<lambda>e. \<not> fi_Symlink (e_fi e)) (archive (packDirectory G OS xp xs xr roots))"
    by (simp add: list_all_iff)
next
  assume "fs OS root = Some nd \<and> resolve nd = Inr t"
  then show "walkRoot G OS root wft
        = iterDirectory G OS root (stat_info (Base OS root) t) t (wft\<lparr>prefix := root\<rparr>)"
    by (simp add: walkRoot_def os_Stat_def)
next
  assume a: "fsym G \<and> is_link nd \<and> resolve nd = Inr t"
  then have r: "readDir nd = readDir t" and i: "resolve t = Inr t"
    by (auto dest: resolve_Inr_readDir resolve_Inr_idem)
  show "iterDirectory G OS fPath (lstat_info n nd) nd wft
        = iterDirectory G OS fPath (stat_info (Base OS fPath) t) t wft"
    using a r i
    by (simp add: iterDirectory.simps lstat_info_def stat_info_def Let_def
          split: option.splits prod.splits outcome.splits sum.splits)
qed

theorem skip_without_follow_witness:
  "ssym (flags0\<lparr>ssym := True\<rparr>) \<and> \<not> fsym (flags0\<lparr>ssym := True\<rparr>) \<and> is_link (Link File)
   \<and> virPath (unix link_root_tree) ((new_walk flags0 [] [] [])\<lparr>prefix := ''/current''\<rparr>)
        ''/current/l'' \<noteq> None
   \<and> iterDirectory (flags0\<lparr>ssym := True\<rparr>) (unix link_root_tree) ''/current/l''
        (lstat_info ''l'' (Link File)) (Link File)
        ((new_walk flags0 [] [] [])\<lparr>prefix := ''/current''\<rparr>)
      = ((new_walk flags0 [] [] [])\<lparr>prefix := ''/current''\<rparr>, Nil)
   \<and> list_all (\<lambda>e. \<not> fi_Symlink (e_fi e))
        (archive (packDirectory (flags0\<lparr>ssym := True\<rparr>) (unix link_root_tree) [] [] [] [''/current'']))
   \<and> map e_src (archive (packDirectory (flags0\<lparr>ssym := True\<rparr>) (unix link_root_tree) [] [] []
        [''/current''])) = [''/current/f'']
   \<and> fs (unix link_root_tree) ''/current'' = Some (Link (Dir [(''f'', File), (''l'', Link File)]))
   \<and> resolve (Link (Dir [(''f'', File), (''l'', Link File)]))
      = Inr (Dir [(''f'', File), (''l'', Link File)])
   \<and> walkRoot (flags0\<lparr>ssym := True\<rparr>) (unix link_root_tree) ''/current'' (new_walk flags0 [] [] [])
      = iterDirectory (flags0\<lparr>ssym := True\<rparr>) (unix link_root_tree) ''/current''
          (stat_info (Base (unix link_root_tree) ''/current'') (Dir [(''f'', File), (''l'', Link File)]))
          (Dir [(''f'', File), (''l'', Link File)])
          ((new_walk flags0 [] [] [])\<lparr>prefix := ''/current''\<rparr>)
   \<and> fsym (flags0\<lparr>fsym := True, ssym := True\<rparr>) \<and> resolve (Link File) = Inr File
   \<and> iterDirectory (flags0\<lparr>fsym := True, ssym := True\<rparr>) (unix link_root_tree) ''/current/l''
        (lstat_info ''l'' (Link File)) (Link File)
        ((new_walk flags0 [] [] [])\<lparr>prefix := ''/current''\<rparr>)
      = iterDirectory (flags0\<lparr>fsym := True, ssym := True\<rparr>) (unix link_root_tree) ''/current/l''
          (stat_info (Base (unix link_root_tree) ''/current/l'') File) File
          ((new_walk flags0 [] [] [])\<lparr>prefix := ''/current''\<rparr>)"
proof -
  let ?w = "(new_walk flags0 [] [] [])\<lparr>prefix := ''/current''\<rparr>"
  let ?d = "Dir [(''f'', File), (''l'', Link File)]"
  have a: "ssym (flags0\<lparr>ssym := True\<rparr>) \<and> \<not> fsym (flags0\<lparr>ssym := True\<rparr>) \<and> is_link (Link File)"
    by (simp add: flags0_def)
  have b: "virPath (unix link_root_tree) ?w ''/current/l'' \<noteq> None"
    by (simp add: virPath_def)
  have c: "fsym (flags0\<lparr>fsym := True, ssym := True\<rparr>) \<and> is_link (Link File)
      \<and> resolve (Link File) = Inr File"
    by simp
  have d: "fs (unix link_root_tree) ''/current'' = Some (Link ?d) \<and> resolve (Link ?d) = Inr ?d"
    by (simp add: unix_def link_root_tree_def)
  have e: "map e_src (archive (packDirectory (flags0\<lparr>ssym := True\<rparr>) (unix link_root_tree) [] [] []
        [''/current''])) = [''/current/f'']"
    by code_simp
  note t1 = skip_without_follow [of "flags0\<lparr>ssym := True\<rparr>" "Link File" "unix link_root_tree"
      "''/current/l''" "''l''" ?w "[]" "[]" "[]" "[''/current'']" "''/current''" File]
  note t2 = skip_without_follow [of "flags0\<lparr>ssym := True\<rparr>" "Link ?d" "unix link_root_tree"
      "''/current/l''" "''l''" "new_walk flags0 [] [] []" "[]" "[]" "[]" "[''/current'']"
      "''/current''" ?d]
  note t3 = skip_without_follow [of "flags0\<lparr>fsym := True, ssym := True\<rparr>" "Link File"
      "unix link_root_tree" "''/current/l''" "''l''" ?w "[]" "[]" "[]" "[''/current'']"
      "''/current''" File]
  have 1: "iterDirectory (flags0\<lparr>ssym := True\<rparr>) (unix link_root_tree) ''/current/l''
        (lstat_info ''l'' (Link File)) (Link File) ?w = (?w, Nil)"
    using t1 a b by (metis prod.collapse)
  have 2: "list_all (\<lambda>e. \<not> fi_Symlink (e_fi e))
        (archive (packDirectory (flags0\<lparr>ssym := True\<rparr>) (unix link_root_tree) [] [] [] [''/current'']))"
    using t1 a by blast
  have 3: "walkRoot (flags0\<lparr>ssym := True\<rparr>) (unix link_root_tree) ''/current'' (new_walk flags0 [] [] [])
      = iterDirectory (flags0\<lparr>ssym := True\<rparr>) (unix link_root_tree) ''/current''
          (stat_info (Base (unix link_root_tree) ''/current'') ?d) ?d ?w"
    using t2 d by blast
  have 4: "iterDirectory (flags0\<lparr>fsym := True, ssym := True\<rparr>) (unix link_root_tree) ''/current/l''
        (lstat_info ''l'' (Link File)) (Link File) ?w
      = iterDirectory (flags0\<lparr>fsym := True, ssym := True\<rparr>) (unix link_root_tree) ''/current/l''
          (stat_info (Base (unix link_root_tree) ''/current/l'') File) File ?w"
    using t3 c by blast
  show ?thesis
    using a b c d e 1 2 3 4 by simp
qed

theorem skip_and_follow_counterexample:
  "ssym (flags0\<lparr>fsym := True, ssym := True\<rparr>)
   \<and> fs (unix demo_tree) ''/app'' =
       Some (Dir [(''x'', Dir [(''y.txt'', File), (''z'', File)]), (''main.go'', File),
              (''l'', Link File), (''gone'', BadLink ErrNotExist),
              (''.git'', Dir [(''config'', File)]), (''app.tar.gz'', File),
              (''README.md'', File)])
   \<and> map (\<lambda>e. (e_name e, e_src e, e_body e))
        (archive (packDirectory (flags0\<lparr>fsym := True, ssym := True\<rparr>) (unix demo_tree)
           [''.''] [''.go''] [] [''/app'']))
      = [(''README.md'', ''/app/README.md'', Content), (''app.tar.gz'', ''/app/app.tar.gz'', Content),
         (''l'', ''/app/l'', Content), (''x/y.txt'', ''/app/x/y.txt'', Content),
         (''x/z'', ''/app/x/z'', Content)]"
  by code_simp

subsection \<open>Configuration errors and the output file\<close>

text \<open>
  Claim C5, as amended.  A run of \<^verbatim>\<open>packApp\<close> with a pattern that does not compile, or
  with an application path that does not exist or is not a directory, ends before
  \<^verbatim>\<open>packDirectory\<close> is called: no output file is created.  \<^verbatim>\<open>packDirectory\<close> itself
  creates the output file before it looks at any root, so a root that is missing or
  cannot be listed fails the run with the output file already created.
\<close>

theorem config_errors_and_output_file:
  "(list_ex (\<lambda>r. length r > 0 \<and> regexp_Compile OS r = None) (excludeR G) \<longrightarrow>
      fst (packApp G OS) = None \<and> (snd (packApp G OS) = Fatal \<or> snd (packApp G OS) = Crashed))
   \<and> (Abs OS (if \<not> IsAbs OS (appPath G) then Join OS (Getwd OS) (appPath G) else appPath G)
         = Inr thePath
       \<and> (os_Stat OS thePath = Inl ErrNotExist \<or> (\<exists>nd. os_Stat OS thePath = Inr nd \<and> \<not> is_dir nd))
       \<longrightarrow> packApp G OS = (None, Fatal))
   \<and> (io_OpenFile OS (outputP G) = None \<and> os_Stat OS root = Inl e \<longrightarrow>
        packDirectory G OS xp xs xr (root # roots)
        = (Some ((new_walk G xp xs xr)\<lparr>prefix := root\<rparr>), Failed (OSError e)))
   \<and> (io_OpenFile OS (outputP G) = None \<and> os_Stat OS root = Inr (BadDir e) \<and> root \<noteq> outputP G \<longrightarrow>
        packDirectory G OS xp xs xr (root # roots)
        = (Some ((new_walk G xp xs xr)\<lparr>prefix := root\<rparr>), Failed (OSError e)))"
proof (intro conjI impI)
  assume "list_ex (\<lambda>r. length r > 0 \<and> regexp_Compile OS r = None) (excludeR G)"
  then have "compile_all OS (excludeR G) = None" by (simp add: compile_all_None)
  then show "fst (packApp G OS) = None"
    and "snd (packApp G OS) = Fatal \<or> snd (packApp G OS) = Crashed"
    using packApp_no_file_before_packDirectory by blast+
next
  assume "Abs OS (if \<not> IsAbs OS (appPath G) then Join OS (Getwd OS) (appPath G) else appPath G)
         = Inr thePath
       \<and> (os_Stat OS thePath = Inl ErrNotExist \<or> (\<exists>nd. os_Stat OS thePath = Inr nd \<and> \<not> is_dir nd))"
  then show "packApp G OS = (None, Fatal)"
    by (auto simp: packApp_def Let_def)
next
  assume "io_OpenFile OS (outputP G) = None \<and> os_Stat OS root = Inl e"
  then show "packDirectory G OS xp xs xr (root # roots)
        = (Some ((new_walk G xp xs xr)\<lparr>prefix := root\<rparr>), Failed (OSError e))"
    by (simp add: packDirectory_def walkRoot_def)
next
  assume "io_OpenFile OS (outputP G) = None \<and> os_Stat OS root = Inr (BadDir e) \<and> root \<noteq> outputP G"
  then show "packDirectory G OS xp xs xr (root # roots)
        = (Some ((new_walk G xp xs xr)\<lparr>prefix := root\<rparr>), Failed (OSError e))"
    by (simp add: packDirectory_def walkRoot_def iterDirectory.simps virPath_def walkLeaf_def
          stat_info_def Let_def)
qed


theorem config_errors_and_output_file_witness:
  "list_ex (\<lambda>r. length r > 0 \<and> regexp_Compile (unix demo_tree) r = None)
      (excludeR (flags0\<lparr>excludeR := [''a(b'']\<rparr>))
   \<and> fst (packApp (flags0\<lparr>excludeR := [''a(b'']\<rparr>) (unix demo_tree)) = None
   \<and> snd (packApp (flags0\<lparr>excludeR := [''a(b'']\<rparr>) (unix demo_tree)) = Fatal
   \<and> Abs (unix demo_tree) ''/missing'' = Inr ''/missing''
   \<and> os_Stat (unix demo_tree) ''/missing'' = Inl ErrNotExist
   \<and> packApp (flags0\<lparr>appPath := ''/missing''\<rparr>) (unix demo_tree) = (None, Fatal)
   \<and> io_OpenFile (unix demo_tree) (outputP flags0) = None
   \<and> packDirectory flags0 (unix demo_tree) [''.''] [] [] (''/missing'' # [''/app''])
      = (Some ((new_walk flags0 [''.''] [] [])\<lparr>prefix := ''/missing''\<rparr>), Failed (OSError ErrNotExist))
   \<and> os_Stat (unix demo_tree) ''/locked'' = Inr (BadDir ErrPermission)
   \<and> packDirectory flags0 (unix demo_tree) [''.''] [] [] (''/locked'' # [''/app''])
      = (Some ((new_walk flags0 [''.''] [] [])\<lparr>prefix := ''/locked''\<rparr>), Failed (OSError ErrPermission))"
proof -
  let ?G1 = "flags0\<lparr>excludeR := [''a(b'']\<rparr>" and ?G2 = "flags0\<lparr>appPath := ''/missing''\<rparr>"
  have a: "list_ex (\<lambda>r. length r > 0 \<and> regexp_Compile (unix demo_tree) r = None) (excludeR ?G1)"
    by (simp add: unix_def)
  have b: "snd (packApp ?G1 (unix demo_tree)) = Fatal"
    by code_simp
  have c: "Abs (unix demo_tree) (if \<not> IsAbs (unix demo_tree) (appPath ?G2)
             then Join (unix demo_tree) (Getwd (unix demo_tree)) (appPath ?G2) else appPath ?G2)
           = Inr ''/missing''
       \<and> (os_Stat (unix demo_tree) ''/missing'' = Inl ErrNotExist
           \<or> (\<exists>nd. os_Stat (unix demo_tree) ''/missing'' = Inr nd \<and> \<not> is_dir nd))"
    by (simp add: unix_def flags0_def os_Stat_def demo_tree_def)
  have c': "Abs (unix demo_tree) ''/missing'' = Inr ''/missing''
       \<and> os_Stat (unix demo_tree) ''/missing'' = Inl ErrNotExist"
    by (simp add: unix_def os_Stat_def demo_tree_def)
  have d: "io_OpenFile (unix demo_tree) (outputP flags0) = None
       \<and> os_Stat (unix demo_tree) ''/missing'' = Inl ErrNotExist"
    by (simp add: unix_def os_Stat_def demo_tree_def)
  have e: "io_OpenFile (unix demo_tree) (outputP flags0) = None
       \<and> os_Stat (unix demo_tree) ''/locked'' = Inr (BadDir ErrPermission)
       \<and> ''/locked'' \<noteq> outputP flags0"
    by (simp add: unix_def os_Stat_def demo_tree_def flags0_def)
  note t1 = config_errors_and_output_file [of "unix demo_tree" ?G1 "''/missing''" "''/missing''"
      ErrNotExist "[''.'']" "[]" "[]" "[''/app'']"]
  note t2 = config_errors_and_output_file [of "unix demo_tree" ?G2 "''/missing''" "''/missing''"
      ErrNotExist "[''.'']" "[]" "[]" "[''/app'']"]
  note t3 = config_errors_and_output_file [of "unix demo_tree" flags0 "''/missing''" "''/missing''"
      ErrNotExist "[''.'']" "[]" "[]" "[''/app'']"]
  note t4 = config_errors_and_output_file [of "unix demo_tree" flags0 "''/missing''" "''/locked''"
      ErrPermission "[''.'']" "[]" "[]" "[''/app'']"]
  have 1: "fst (packApp ?G1 (unix demo_tree)) = None" using t1 a by blast
  have 2: "packApp ?G2 (unix demo_tree) = (None, Fatal)" using t2 c by blast
  have 3: "packDirectory flags0 (unix demo_tree) [''.''] [] [] (''/missing'' # [''/app''])
      = (Some ((new_walk flags0 [''.''] [] [])\<lparr>prefix := ''/missing''\<rparr>), Failed (OSError ErrNotExist))"
    using t3 d by blast
  have 4: "packDirectory flags0 (unix demo_tree) [''.''] [] [] (''/locked'' # [''/app''])
      = (Some ((new_walk flags0 [''.''] [] [])\<lparr>prefix := ''/locked''\<rparr>), Failed (OSError ErrPermission))"
    using t4 e by blast
  show ?thesis
    using a b c' d e 1 2 3 4 by blast
qed

theorem unreadable_root_counterexample:
  "os_Stat (unix demo_tree) ''/locked'' = Inr (BadDir ErrPermission)
   \<and> map_option (\<lambda>w. map e_src (written w))
        (fst (packApp (flags0\<lparr>appPath := ''/locked'', outputP := ''/out''\<rparr>) (unix demo_tree)))
      = Some [''/tmp/asanaPack-1/app'']
   \<and> snd (packApp (flags0\<lparr>appPath := ''/locked'', outputP := ''/out''\<rparr>) (unix demo_tree)) = Fatal"
  by code_simp

subsection \<open>Determinism\<close>

text \<open>
  Claim C7.  \<^verbatim>\<open>readDir\<close> returns the children of a directory sorted by name, and a
  packing run does not depend on the order in which the operating system lists a
  directory: two runs on directory trees that are the same up to the order of the
  listings (trees with the same \<open>canon\<close>, as two listings of distinct names that are
  permutations of each other are), with the same flags, rules, roots and I/O outcomes,
  come to the same result, with the same entries in the same order.
\<close>

theorem walk_order_deterministic:
  assumes "\<forall>p. map_option canon (tree' p) = map_option canon (fs OS p)"
  shows "packDirectory G (OS\<lparr>fs := tree'\<rparr>) xp xs xr roots = packDirectory G OS xp xs xr roots
       \<and> (\<forall>nd list. readDir nd = Inr list \<longrightarrow> sorted (map fst list))
       \<and> (\<forall>cs cs'. mset cs' = mset cs \<and> distinct (map fst cs) \<longrightarrow>
             canon (Dir cs') = canon (Dir cs))"
proof -
  have "walkRoots G (OS\<lparr>fs := tree'\<rparr>) roots w = walkRoots G OS roots w" for w
    using assms by (rule walkRoots_canon)
  then have "packDirectory G (OS\<lparr>fs := tree'\<rparr>) xp xs xr roots = packDirectory G OS xp xs xr roots"
    by (simp add: packDirectory_def cong: option.case_cong)
  then show ?thesis
    using readDir_sorted canon_Dir_perm by blast
qed

theorem walk_order_deterministic_witness:
  "(\<forall>p. map_option canon (demo_tree_shuffled p) = map_option canon (fs (unix demo_tree) p))
   \<and> packDirectory flags0 ((unix demo_tree)\<lparr>fs := demo_tree_shuffled\<rparr>) [''.''] [''.go''] []
        [''/tmp/build'', ''/app'']
      = packDirectory flags0 (unix demo_tree) [''.''] [''.go''] [] [''/tmp/build'', ''/app'']
   \<and> map e_name (archive (packDirectory flags0 ((unix demo_tree)\<lparr>fs := demo_tree_shuffled\<rparr>)
        [''.''] [''.go''] [] [''/tmp/build'', ''/app'']))
      = [''app'', ''x/y.txt'', ''README.md'', ''app.tar.gz'', ''gone'', ''l'', ''x/z'']
   \<and> readDir (Dir [(''x'', File), (''README.md'', File), (''app'', File)])
      = Inr [(''README.md'', File), (''app'', File), (''x'', File)]
   \<and> sorted (map fst [(''README.md'', File), (''app'', File), (''x'', File)])"
proof -
  have c1: "canon (Dir [(''app'', File), (''x'', Dir [(''y.txt'', File)])])
      = canon (Dir [(''x'', Dir [(''y.txt'', File)]), (''app'', File)])"
    by code_simp
  have c2: "canon (Dir [(''README.md'', File), (''gone'', BadLink ErrNotExist), (''main.go'', File),
              (''x'', Dir [(''z'', File), (''y.txt'', File)]), (''app.tar.gz'', File),
              (''.git'', Dir [(''config'', File)]), (''l'', Link File)])
      = canon (Dir [(''x'', Dir [(''y.txt'', File), (''z'', File)]), (''main.go'', File),
              (''l'', Link File), (''gone'', BadLink ErrNotExist),
              (''.git'', Dir [(''config'', File)]), (''app.tar.gz'', File),
              (''README.md'', File)])"
    by code_simp
  have a: "\<forall>p. map_option canon (demo_tree_shuffled p) = map_option canon (fs (unix demo_tree) p)"
    using c1 c2 by (simp add: demo_tree_shuffled_def demo_tree_def unix_def del: canon.simps)
  have b: "map e_name (archive (packDirectory flags0 ((unix demo_tree)\<lparr>fs := demo_tree_shuffled\<rparr>)
        [''.''] [''.go''] [] [''/tmp/build'', ''/app'']))
      = [''app'', ''x/y.txt'', ''README.md'', ''app.tar.gz'', ''gone'', ''l'', ''x/z'']"
    by code_simp
  have r: "readDir (Dir [(''x'', File), (''README.md'', File), (''app'', File)])
      = Inr [(''README.md'', File), (''app'', File), (''x'', File)]"
    by code_simp
  show ?thesis
    using a b r walk_order_deterministic [OF a, of flags0 "[''.'']" "[''.go'']" "[]"
        "[''/tmp/build'', ''/app'']"]
    by blast
qed

end
